theory Spec2Isabelle
  imports Main
begin

section \<open>Python strings\<close>

text \<open>
  Strings are character lists. \<open>split_first c s\<close> is \<^verbatim>\<open>s.split(c)[0]\<close>: the part of
  \<open>s\<close> before the first \<open>c\<close> (all of \<open>s\<close> when there is none). \<open>last_chars n s\<close> is
  \<^verbatim>\<open>s[-n:]\<close> for a positive \<open>n\<close>: the last \<open>n\<close> characters, all of \<open>s\<close>
  when it is shorter. \<open>str_join sep xs\<close> is \<^verbatim>\<open>sep.join(xs)\<close>.
\<close>

definition split_first :: "char \<Rightarrow> string \<Rightarrow> string" where
  "split_first c s = takeWhile (\<lambda>x. x \<noteq> c) s"

definition last_chars :: "nat \<Rightarrow> string \<Rightarrow> string" where
  "last_chars n s = drop (length s - n) s"

fun str_join :: "string \<Rightarrow> string list \<Rightarrow> string" where
  "str_join sep [] = []"
| "str_join sep [x] = x"
| "str_join sep (x # y # ys) = x @ sep @ str_join sep (y # ys)"

definition newline :: char where
  "newline = CHR 0x0A"

section \<open>Data frames\<close>

text \<open>
  A pandas DataFrame as the pipeline uses it: the row labels (\<open>index\<close>) and the columns
  in order, each a name with one cell per row. \<^verbatim>\<open>pd.DataFrame()\<close> is \<open>empty_frame\<close>.
  The cells of a parsed response are strings (\<^verbatim>\<open>.fillna('').astype(str)\<close>); the cells
  of a concatenation are optional strings, \<open>None\<close> for the NaN that \<^verbatim>\<open>pd.concat\<close>
  puts where a frame lacks a column.
\<close>

record 'c frame =
  index :: "nat list"
  columns :: "(string \<times> 'c list) list"

definition empty_frame :: "'c frame" where
  "empty_frame = \<lparr>index = [], columns = []\<rparr>"

definition shape0 :: "'c frame \<Rightarrow> nat" where
  "shape0 f = length (index f)"

definition shape1 :: "'c frame \<Rightarrow> nat" where
  "shape1 f = length (columns f)"

definition well_formed :: "'c frame \<Rightarrow> bool" where
  "well_formed f =
     (distinct (map fst (columns f)) \<and>
      list_all (\<lambda>c. length (snd c) = length (index f)) (columns f))"

section \<open>Exceptions\<close>

text \<open>
  \<open>ApiSetupError\<close> carries its two attributes, \<open>error\<close> and \<open>description\<close>. The
  description is kept as the pieces \<^verbatim>\<open>str.format\<close> puts together: the literal text of
  the template and the arguments that fill its \<^verbatim>\<open>{}\<close> fields. How pandas prints a
  DataFrame and how Python prints a bytes object are not modelled, so an argument stays
  the value that was passed.
\<close>

datatype err_var = EStr string | EFrame "string frame" | EBytes string

datatype piece = Lit string | Arg err_var

datatype error =
    ConnectionError
  | KeyError string
  | ValueError string
  | IndexError
  | TypeError string
  | AttributeError
  | ApiSetupError string "piece list"
  | OtherException string

fun format_py :: "string \<Rightarrow> string \<Rightarrow> err_var list \<Rightarrow> piece list" where
  "format_py lit [] args = [Lit lit]"
| "format_py lit [c] args = [Lit (lit @ [c])]"
| "format_py lit (c # d # rest) args =
     (if c = CHR ''{'' \<and> d = CHR ''}'' then
        (case args of
           [] \<Rightarrow> [Lit lit]
         | a # as \<Rightarrow> Lit lit # Arg a # format_py [] rest as)
      else format_py (lit @ [c]) (d # rest) args)"

definition err_dict :: "(string \<times> string \<times> string) list" where
  "err_dict =
     [(''api_down'', ''API Service Not Running'',
         ''The API Initialisation call failed'' @ [newline] @ ''The API {} returned the error {}''),
      (''api_key'', ''API Response Error'',
         ''Missing data fields: \"{}\"'' @ [newline] @ ''{}''),
      (''fld_drop'', ''Blob Error'', ''Field delete: \"{}\" does not exist in {}''),
      (''job_id'', ''Job ID Error'', ''The folder for Job ID: \"{}\" does not exist.{}''),
      (''sp_log'', ''SharePoint Logging Error'', ''{} {}'')]"

fun strs_of :: "err_var list \<Rightarrow> string list option" where
  "strs_of [] = Some []"
| "strs_of (EStr s # vs) = map_option (\<lambda>ss. s # ss) (strs_of vs)"
| "strs_of (v # vs) = None"

text \<open>
  \<^verbatim>\<open>ApiSetupError.__init__\<close> for a list argument: three elements look the first up in
  \<open>err_dict\<close> and fill its template with the other two; any other length takes the
  first element as the error and joins the rest with newlines. A key that is not in
  \<open>err_dict\<close> (a string or a bytes object, both hashable) leaves \<^verbatim>\<open>self.error\<close>
  unset, and \<^verbatim>\<open>__str__\<close> then fails with AttributeError; a DataFrame as the key is
  unhashable, and the lookup itself fails with TypeError.
\<close>

definition ApiSetupError_init :: "err_var list \<Rightarrow> error" where
  "ApiSetupError_init err_vars =
     (if length err_vars = 3 then
        (case err_vars ! 0 of
           EStr k \<Rightarrow>
             (case map_of err_dict k of
                Some (nm, descr) \<Rightarrow> ApiSetupError nm (format_py [] descr [err_vars ! 1, err_vars ! 2])
              | None \<Rightarrow> AttributeError)
         | EBytes k \<Rightarrow> AttributeError
         | EFrame f \<Rightarrow> TypeError ''unhashable type'')
      else
        (case err_vars of
           [] \<Rightarrow> IndexError
         | EStr e # rest \<Rightarrow>
             (case strs_of rest of
                Some ss \<Rightarrow> ApiSetupError e [Lit (str_join [newline] ss)]
              | None \<Rightarrow> TypeError ''sequence item: expected str instance'')
         | _ # rest \<Rightarrow> TypeError ''expected str instance''))"

section \<open>Column operations\<close>

text \<open>
  \<^verbatim>\<open>batch[c]\<close> raises KeyError for a column that is not there. \<^verbatim>\<open>batch[c] = v\<close>
  overwrites the column in place when it exists and appends it otherwise; a scalar is
  broadcast to one cell per existing row. \<^verbatim>\<open>batch.index = idx\<close> raises ValueError
  ("Length mismatch") unless \<open>idx\<close> has one label per row.
\<close>

definition getitem :: "'c frame \<Rightarrow> string \<Rightarrow> error + 'c list" where
  "getitem f c = (case map_of (columns f) c of None \<Rightarrow> Inl (KeyError c) | Some vs \<Rightarrow> Inr vs)"

fun assign_column :: "(string \<times> 'c list) list \<Rightarrow> string \<Rightarrow> 'c list \<Rightarrow> (string \<times> 'c list) list" where
  "assign_column [] c vs = [(c, vs)]"
| "assign_column ((k, ws) # cs) c vs =
     (if k = c then (k, vs) # cs else (k, ws) # assign_column cs c vs)"

definition setitem_scalar :: "'c frame \<Rightarrow> string \<Rightarrow> 'c \<Rightarrow> 'c frame" where
  "setitem_scalar f c v = f\<lparr>columns := assign_column (columns f) c (replicate (shape0 f) v)\<rparr>"

definition apply_column :: "'c frame \<Rightarrow> string \<Rightarrow> ('c \<Rightarrow> 'c) \<Rightarrow> error + 'c frame" where
  "apply_column f c g =
     (case getitem f c of
        Inl e \<Rightarrow> Inl e
      | Inr vs \<Rightarrow> Inr (f\<lparr>columns := assign_column (columns f) c (map g vs)\<rparr>))"

definition set_index :: "'c frame \<Rightarrow> nat list \<Rightarrow> error + 'c frame" where
  "set_index f idx =
     (if length idx \<noteq> shape0 f then Inl (ValueError ''Length mismatch'')
      else Inr (f\<lparr>index := idx\<rparr>))"

section \<open>The world outside\<close>

text \<open>
  What the program does to the outside is recorded as events: an HTTP GET or POST with
  its URL (and body), a \<^verbatim>\<open>time.sleep\<close> with its seconds, a log entry with its
  values, a \<^verbatim>\<open>print\<close>. What the outside answers is an input of the model. For the
  startup check, \<open>web url\<close> is what the GET of \<open>url\<close> meets. For a batch, an
  \<open>endpoint\<close> gives what the POST of a body to a URL meets on each attempt of one
  retry sequence (attempts counted from 0): an exception raised by
  \<^verbatim>\<open>requests.post\<close> or \<^verbatim>\<open>pd.read_json\<close>, the XMLSyntaxError that
  \<^verbatim>\<open>call_api\<close> catches (with the response text), or the table read from the response.
\<close>

datatype logval = LStr string | LInt int | LBytes string

datatype event =
    Get string
  | Post string string
  | Sleep int
  | Log "logval list"
  | Print string

datatype json = JNull | JStr string | JNum int

datatype probe =
    ConnectTimeout
  | ProbeConnectionError
  | JSONDecodeError
  | JsonDict "(string \<times> json) list"

datatype outcome =
    Raises error
  | XMLSyntaxError string
  | Parsed "string frame"

type_synonym endpoint = "string \<Rightarrow> string \<Rightarrow> nat \<Rightarrow> outcome"

section \<open>ApiServer\<close>

fun digits :: "nat \<Rightarrow> string" where
  "digits n =
     (if n < 10 then [char_of (48 + n)]
      else digits (n div 10) @ [char_of (48 + n mod 10)])"

declare digits.simps [simp del]

definition str_int :: "int \<Rightarrow> string" where
  "str_int i = (if i < 0 then CHR ''-'' # digits (nat (- i)) else digits (nat i))"

definition py_str :: "json \<Rightarrow> string" where
  "py_str v = (case v of JNull \<Rightarrow> ''None'' | JStr s \<Rightarrow> s | JNum n \<Rightarrow> str_int n)"

definition truthy :: "json \<Rightarrow> bool" where
  "truthy v = (case v of JNull \<Rightarrow> False | JStr s \<Rightarrow> s \<noteq> [] | JNum n \<Rightarrow> n \<noteq> 0)"

definition dict_get :: "(string \<times> 'v) list \<Rightarrow> string \<Rightarrow> 'v option" where
  "dict_get d k = map_of d k"

definition dict_item :: "(string \<times> 'v) list \<Rightarrow> string \<Rightarrow> error + 'v" where
  "dict_item d k = (case map_of d k of None \<Rightarrow> Inl (KeyError k) | Some v \<Rightarrow> Inr v)"

function replace_str :: "string \<Rightarrow> string \<Rightarrow> string \<Rightarrow> string" where
  "replace_str old new [] = []"
| "replace_str old new (c # cs) =
     (if old \<noteq> [] \<and> take (length old) (c # cs) = old
      then new @ replace_str old new (drop (length old - 1) cs)
      else c # replace_str old new cs)"
  by pat_completeness auto
termination
  by (relation "measure (\<lambda>(old, new, s). length s)") auto

definition format_str :: "string \<Rightarrow> string list \<Rightarrow> string" where
  "format_str t args =
     concat (map (\<lambda>p. case p of Lit s \<Rightarrow> s | Arg (EStr s) \<Rightarrow> s | Arg _ \<Rightarrow> [])
                 (format_py [] t (map EStr args)))"

record api_server =
  name :: string
  root :: string
  uri_stem :: string
  multi_thread_mode :: bool
  init_result :: string
  online :: bool

text \<open>The class attributes of \<^verbatim>\<open>ApiServer\<close>.\<close>

definition check_str :: string where
  "check_str = ''address1=AFD%20Software%20Ltd,Lezayre,Ramsey,Isle%20of%20Man,IM7%202DZ''"

definition sleep_timer :: int where
  "sleep_timer = 1"

definition sleep_timer_increment :: int where
  "sleep_timer_increment = 3"

definition default_refiner_fields :: "string list" where
  "default_refiner_fields =
     [''UDPRN'', ''UPRN'', ''Organisation'', ''Property'', ''Street'', ''Locality'', ''Town'',
      ''PostalCounty'', ''Postcode'']"

text \<open>
  \<^verbatim>\<open>ApiServer.call()\<close> with no arguments, as \<^verbatim>\<open>check_api\<close> calls it: one GET of
  the URI stem joined with the test address.
\<close>

definition call_url :: "string \<Rightarrow> string" where
  "call_url stem = str_join ''&'' [stem, check_str]"

definition result_table :: "string \<Rightarrow> (string \<times> string) list" where
  "result_table nm =
     [(''200'', ''Working''),
      (''-1'', ''Test Lookup Address Failed - Check service manually''),
      (''-7'', nm @ '' Authentication Error - Check licence (serial) and password''),
      (''H1'', nm @ '' Not Responding - Check the host IP address''),
      (''H2'', nm @ '' Not Responding - Check the host port number''),
      (''S1'', ''You have setup the '' @ nm @
               '' API for XML responses. We can currently only handle JSON. '' @ [newline] @
               ''Ensure that \"frmt='' @ [CHR 0x27] @ ''json'' @ [CHR 0x27] @
               ''\" is included in your ApiServer instantiation.''),
      (''NA'', nm @ '' Returned Unexpected Result ([urc])- Check service manually'')]"

definition lookup_result :: "(string \<times> string) list \<Rightarrow> string \<Rightarrow> error + string" where
  "lookup_result tbl k = dict_item tbl k"

definition check_api :: "(string \<Rightarrow> probe) \<Rightarrow> string \<Rightarrow> string \<Rightarrow> (error + string) \<times> event list" where
  "check_api web nm stem =
     (let result = result_table nm; url = call_url stem in
      ((case web url of
         ConnectTimeout \<Rightarrow> lookup_result result ''H1''
       | ProbeConnectionError \<Rightarrow> lookup_result result ''H2''
       | JSONDecodeError \<Rightarrow> lookup_result result ''S1''
       | JsonDict in_dict \<Rightarrow>
           (let rc0 = (case dict_get in_dict ''ResultCode'' of None \<Rightarrow> JNull | Some v \<Rightarrow> v);
                rc = (if \<not> truthy rc0
                      then (case dict_get in_dict ''Result'' of None \<Rightarrow> JNull | Some v \<Rightarrow> v)
                      else rc0)
            in if py_str rc \<notin> set (map fst result) then
                 (case rc of
                    JStr s \<Rightarrow>
                      (case lookup_result result ''NA'' of
                         Inl e \<Rightarrow> Inl e
                       | Inr na \<Rightarrow> Inr (replace_str ''[urc]'' s na))
                  | _ \<Rightarrow> Inl (TypeError ''replace() argument 2 must be str''))
               else lookup_result result (py_str rc))),
       [Get url]))"

text \<open>
  \<^verbatim>\<open>ApiServer.__init__\<close>, with a LogManager passed as \<^verbatim>\<open>api_log\<close> (as
  \<^verbatim>\<open>Config.set_apis\<close> passes it). A check result other than \<^verbatim>\<open>'Working'\<close> raises:
  no object is returned.
\<close>

definition ApiServer_root :: "string \<Rightarrow> string \<Rightarrow> string \<Rightarrow> string \<Rightarrow> string" where
  "ApiServer_root root_template host licence password =
     format_str root_template [host, licence, password]"

definition ApiServer_uri_stem :: "string \<Rightarrow> string list option \<Rightarrow> string \<Rightarrow> string" where
  "ApiServer_uri_stem rt refiner_fields frmt =
     (let flds = (case refiner_fields of
                    None \<Rightarrow> default_refiner_fields
                  | Some fs \<Rightarrow> if fs = [] then default_refiner_fields else fs)
      in str_join ''&'' [rt, ''format='' @ frmt, ''fields='' @ str_join ''@'' flds])"

definition ApiServer_init ::
  "(string \<Rightarrow> probe) \<Rightarrow> string \<Rightarrow> string \<Rightarrow> string \<Rightarrow> string \<Rightarrow> string \<Rightarrow> bool \<Rightarrow>
   string list option \<Rightarrow> string \<Rightarrow> (error + api_server) \<times> event list" where
  "ApiServer_init web nm host licence password root_template multi refiner_fields frmt =
     (let rt = ApiServer_root root_template host licence password;
          stem = ApiServer_uri_stem rt refiner_fields frmt
      in (case check_api web nm stem of
            (Inl e, ev) \<Rightarrow> (Inl e, ev)
          | (Inr res, ev) \<Rightarrow>
              if res \<noteq> ''Working''
              then (Inl (ApiSetupError_init [EStr ''API Settings Error'', EStr res]), ev)
              else (Inr \<lparr>name = nm, root = rt, uri_stem = stem, multi_thread_mode = multi,
                          init_result = res, online = True\<rparr>,
                    ev @ [Log [LStr ''API Server initialised'', LStr nm,
                               LStr (''Running in '' @ (if multi then ''Multi'' else ''Single'') @
                                     ''-threaded Mode'')]])))"

text \<open>
  \<^verbatim>\<open>get_apis\<close> (and \<^verbatim>\<open>Config.set_apis\<close>, which is the same loop): one ApiServer
  per entry of the server list, in order; an exception of the constructor leaves the
  loop and the function.
\<close>

definition root_template :: string where
  "root_template = ''http://{}/v1/refiner/GBR/clean?serial={}&password={}''"

text \<open>The constructor call of the loop body, with its four dictionary lookups.\<close>

definition construct ::
  "(string \<Rightarrow> probe) \<Rightarrow> bool \<Rightarrow> string list option \<Rightarrow> (string \<times> string) list \<Rightarrow>
   (error + api_server) \<times> event list" where
  "construct web multi flds si =
     (case dict_item si ''name'' of Inl e \<Rightarrow> (Inl e, []) | Inr nm \<Rightarrow>
      (case dict_item si ''host'' of Inl e \<Rightarrow> (Inl e, []) | Inr host \<Rightarrow>
      (case dict_item si ''licence'' of Inl e \<Rightarrow> (Inl e, []) | Inr licence \<Rightarrow>
      (case dict_item si ''password'' of Inl e \<Rightarrow> (Inl e, []) | Inr password \<Rightarrow>
         ApiServer_init web nm host licence password root_template multi flds ''json''))))"

fun get_apis_loop ::
  "(string \<Rightarrow> probe) \<Rightarrow> bool \<Rightarrow> string list option \<Rightarrow> (string \<times> string) list list \<Rightarrow>
   api_server list \<Rightarrow> event list \<Rightarrow> (error + api_server list) \<times> event list" where
  "get_apis_loop web multi flds [] pool ev = (Inr pool, ev)"
| "get_apis_loop web multi flds (si # rest) pool ev =
     (case construct web multi flds si of
        (Inl e, ev') \<Rightarrow> (Inl e, ev @ ev')
      | (Inr api_server, ev') \<Rightarrow>
          if online api_server
          then get_apis_loop web multi flds rest (pool @ [api_server]) (ev @ ev')
          else get_apis_loop web multi flds rest pool (ev @ ev'))"

definition get_apis ::
  "(string \<Rightarrow> probe) \<Rightarrow> (string \<times> string) list list \<Rightarrow> string list option \<Rightarrow>
   (error + api_server list) \<times> event list" where
  "get_apis web api_server_info refiner_request_fields =
     (let multi_threaded_mode = (length api_server_info > 1) in
      (case get_apis_loop web multi_threaded_mode refiner_request_fields api_server_info [] [] of
         (Inl e, ev) \<Rightarrow> (Inl e, ev)
       | (Inr pool, ev) \<Rightarrow>
           (Inr pool,
            ev @ [Print (str_int (int (length pool)) @ '' server'' @
                         (if length pool = 1 then [] else ''s'') @ '' initialised'')])))"

section \<open>ApiCall\<close>

text \<open>
  A batch as the planning loop builds it: the request lines joined with newlines, and
  the row labels of its slice. \<^verbatim>\<open>ApiCall.__init__\<close> is modelled for that argument (a
  two-element list), the only one the pipeline passes; \<open>batch_index\<close> and
  \<open>batch_first_row\<close> are the attributes \<^verbatim>\<open>index\<close> and \<^verbatim>\<open>first_row\<close>, and \<open>data\<close> the UTF-8 bytes of the payload.
\<close>

type_synonym batch = "string \<times> nat list"

record api_call =
  api_servers :: "api_server list"
  api_server_id :: nat
  out_fields :: "string list"
  data :: string
  batch_first_row :: string
  batch_index :: "nat list"

definition ApiCall_init :: "api_server list \<Rightarrow> nat \<Rightarrow> string list \<Rightarrow> batch \<Rightarrow> api_call" where
  "ApiCall_init servers server_id refiner_fields batch_data =
     \<lparr>api_servers = servers, api_server_id = server_id, out_fields = refiner_fields,
      data = fst batch_data, batch_first_row = split_first newline (fst batch_data),
      batch_index = snd batch_data\<rparr>"

definition list_item :: "'a list \<Rightarrow> nat \<Rightarrow> error + 'a" where
  "list_item xs i = (if i < length xs then Inr (xs ! i) else Inl IndexError)"

definition get_server :: "api_call \<Rightarrow> bool \<Rightarrow> (error + api_server) \<times> api_call" where
  "get_server api switch =
     (let api' =
        (if switch then
           (if api_server_id api + 1 \<ge> length (api_servers api)
            then api\<lparr>api_server_id := 0\<rparr>
            else api\<lparr>api_server_id := api_server_id api + 1\<rparr>)
         else api)
      in (list_item (api_servers api') (api_server_id api'), api'))"

text \<open>The three lambdas of the normalization branch.\<close>

definition norm_udprn :: "string \<Rightarrow> string" where
  "norm_udprn r = last_chars 8 (''00000000'' @ split_first CHR ''.'' r)"

definition norm_uprn :: "string \<Rightarrow> string" where
  "norm_uprn r = last_chars 12 (''000000000000'' @ split_first CHR ''.'' r)"

definition norm_closeness :: "string \<Rightarrow> string" where
  "norm_closeness r = split_first CHR ''.'' r"

text \<open>
  The branch for more than two columns. A missing column raises KeyError at its
  statement; the result then carries the table as it was when the exception left.
\<close>

definition normalise_columns :: "string frame \<Rightarrow> (error \<times> string frame) + string frame" where
  "normalise_columns b0 =
     (case apply_column b0 ''UDPRN'' norm_udprn of
        Inl e \<Rightarrow> Inl (e, b0)
      | Inr b1 \<Rightarrow>
          (case apply_column b1 ''UPRN'' norm_uprn of
             Inl e \<Rightarrow> Inl (e, b1)
           | Inr b2 \<Rightarrow>
               (case apply_column b2 ''Closeness'' norm_closeness of
                  Inl e \<Rightarrow> Inl (e, b2)
                | Inr b3 \<Rightarrow> Inr b3)))"

text \<open>The branch for at most two columns.\<close>

definition fill_sentinels :: "string list \<Rightarrow> string frame \<Rightarrow> string frame" where
  "fill_sentinels flds b0 =
     (let b1 = fold (\<lambda>f b. setitem_scalar b f []) flds b0;
          b2 = setitem_scalar b1 ''UDPRN'' ''00000000'';
          b3 = setitem_scalar b2 ''UPRN'' ''000000000000''
      in setitem_scalar b3 ''Closeness'' ''0'')"

text \<open>
  The \<^verbatim>\<open>except KeyError\<close> clause around the whole \<^verbatim>\<open>try\<close> block: a KeyError becomes
  \<^verbatim>\<open>ApiSetupError(['api_key', batch, self.data])\<close>, any other exception passes.
\<close>

definition on_exception :: "api_call \<Rightarrow> error \<Rightarrow> string frame \<Rightarrow> error" where
  "on_exception api e batch =
     (case e of
        KeyError k \<Rightarrow> ApiSetupError_init [EStr ''api_key'', EFrame batch, EBytes (data api)]
      | _ \<Rightarrow> e)"

definition after_parse :: "api_call \<Rightarrow> string frame \<Rightarrow> error + string frame" where
  "after_parse api batch =
     (if shape1 batch > 2 then
        (case normalise_columns batch of
           Inl (e, b) \<Rightarrow> Inl (on_exception api e b)
         | Inr b \<Rightarrow> set_index b (batch_index api))
      else set_index (fill_sentinels (out_fields api) batch) (batch_index api))"

text \<open>
  \<^verbatim>\<open>ApiCall.call_api()\<close> with no arguments, on the \<open>n\<close>-th attempt of its retry
  sequence. It returns the result or the exception, the object (which
  \<^verbatim>\<open>get_server\<close> may update) and its events.
\<close>

definition call_api :: "endpoint \<Rightarrow> api_call \<Rightarrow> nat \<Rightarrow> (error + string frame) \<times> api_call \<times> event list" where
  "call_api ep api n =
     (case get_server api False of
        (Inl e, api') \<Rightarrow> (Inl e, api', [])
      | (Inr api_server, api') \<Rightarrow>
          (case ep (uri_stem api_server) (data api') n of
             Raises e \<Rightarrow>
               (Inl (on_exception api' e empty_frame), api', [Post (uri_stem api_server) (data api')])
           | XMLSyntaxError r_out \<Rightarrow>
               (after_parse api' empty_frame, api',
                [Post (uri_stem api_server) (data api'),
                 Log [LStr (name api_server), LBytes (data api'), LStr r_out]])
           | Parsed t \<Rightarrow>
               (after_parse api' t, api', [Post (uri_stem api_server) (data api')])))"

section \<open>check_batch\<close>

text \<open>
  The retry loop. \<open>retry_count\<close> is the loop variable before its increment, which is
  also the number of the attempt; a returned DataFrame sets it to 10. Only
  ConnectionError is caught: it is logged, the loop sleeps and lengthens the next sleep.
  Any other exception leaves the function.
\<close>

function check_batch_loop ::
  "endpoint \<Rightarrow> api_call \<Rightarrow> nat \<Rightarrow> int \<Rightarrow> string frame \<Rightarrow> event list \<Rightarrow>
   (error + string frame) \<times> event list" where
  "check_batch_loop ep api retry_count timer result ev =
     (if retry_count < 10 then
        (case call_api ep api retry_count of
           (Inr r, api', ev') \<Rightarrow> check_batch_loop ep api' 10 timer r (ev @ ev')
         | (Inl e, api', ev') \<Rightarrow>
             if e = ConnectionError then
               check_batch_loop ep api' (retry_count + 1) (timer + sleep_timer_increment) result
                 (ev @ ev' @ [Log [LStr ''Call Failed - ConnectionError'', LInt (int retry_count + 1)],
                              Sleep timer])
             else (Inl e, ev @ ev'))
      else (Inr result, ev))"
  by pat_completeness auto
termination
  by (relation "measure (\<lambda>(ep, api, retry_count, timer, result, ev). 10 - retry_count)") auto

declare check_batch_loop.simps [simp del]

definition check_batch :: "endpoint \<Rightarrow> api_call \<Rightarrow> (error + string frame) \<times> event list" where
  "check_batch ep api =
     (case list_item (api_servers api) (api_server_id api) of
        Inl e \<Rightarrow> (Inl e, [])
      | Inr api_server \<Rightarrow> check_batch_loop ep api 0 sleep_timer empty_frame [])"

section \<open>Planning\<close>

text \<open>
  The input DataFrame of \<^verbatim>\<open>check_chunk\<close> / \<^verbatim>\<open>check_df\<close>, as far as they read it:
  its rows in order, each with its label and its cell of the column \<^verbatim>\<open>'api'\<close> (the
  caller adds that column before the call). \<open>iloc xs a b\<close> is the positional slice
  \<^verbatim>\<open>xs.iloc[a:b]\<close>, with Python's reading of negative and oversized bounds.
\<close>

type_synonym dataset = "(nat \<times> string) list"

definition clip :: "int \<Rightarrow> nat \<Rightarrow> nat" where
  "clip i n = (if i < 0 then nat (max (i + int n) 0) else min (nat i) n)"

definition iloc :: "'a list \<Rightarrow> int \<Rightarrow> int \<Rightarrow> 'a list" where
  "iloc xs a b = take (clip b (length xs) - clip a (length xs)) (drop (clip a (length xs)) xs)"

definition make_batch :: "dataset \<Rightarrow> batch" where
  "make_batch df_slice = (str_join [newline] (map snd df_slice), map fst df_slice)"

text \<open>
  The planning loop. With a batch size that is not positive the loop of the source
  never ends on a dataset with rows; the model then has no value (\<open>None\<close>).
\<close>

partial_function (option) plan_loop ::
  "int \<Rightarrow> dataset \<Rightarrow> int \<Rightarrow> int \<Rightarrow> batch list \<Rightarrow> nat \<Rightarrow> (batch list \<times> nat) option" where
  "plan_loop api_batch_size in_df first_row last_row api_data batch_count =
     (if first_row < last_row then
        plan_loop api_batch_size in_df (first_row + api_batch_size) last_row
          (api_data @ [make_batch (iloc in_df first_row (first_row + api_batch_size))])
          (batch_count + 1)
      else Some (api_data, batch_count))"

declare plan_loop.simps [code]

definition plan :: "int \<Rightarrow> dataset \<Rightarrow> (batch list \<times> nat) option" where
  "plan api_batch_size in_df = plan_loop api_batch_size in_df 0 (int (length in_df)) [] 0"

section \<open>Dispatch\<close>

text \<open>
  The two nested loops that hand the batches to the servers. The inner loop gives one
  batch to each server in turn; the outer loop repeats it until no batch is left. With
  no server the inner loop takes nothing and the outer loop never ends on a non-empty
  batch list: the model then has no value.
\<close>

fun assign_inner ::
  "api_server list \<Rightarrow> string list \<Rightarrow> nat \<Rightarrow> batch list \<Rightarrow> api_call list \<Rightarrow>
   batch list \<times> api_call list" where
  "assign_inner servers flds s_id [] proc_list = ([], proc_list)"
| "assign_inner servers flds s_id (b # batch_list) proc_list =
     (if s_id < length servers
      then assign_inner servers flds (s_id + 1) batch_list
             (proc_list @ [ApiCall_init servers s_id flds b])
      else (b # batch_list, proc_list))"

partial_function (option) assign_outer ::
  "api_server list \<Rightarrow> string list \<Rightarrow> batch list \<Rightarrow> api_call list \<Rightarrow> api_call list option" where
  "assign_outer servers flds batch_list proc_list =
     (if length batch_list > 0 then
        assign_outer servers flds
          (fst (assign_inner servers flds 0 batch_list proc_list))
          (snd (assign_inner servers flds 0 batch_list proc_list))
      else Some proc_list)"

declare assign_outer.simps [code]

text \<open>
  A unit of work is one ApiCall with the events of its \<^verbatim>\<open>check_batch\<close>. The \<open>k\<close>-th
  unit (in planning order, from 0) meets the endpoint behaviour \<open>net k\<close>.

  \<open>executor_map\<close> is \<^verbatim>\<open>list(executor.map(check_batch, proc_list))\<close> as its caller
  sees it: the results in the order of \<open>proc_list\<close>, or the exception of the first unit
  in that order that raised. The units run concurrently; how their events interleave,
  and which units after a failed one still ran, is not modelled, so the units listed
  are those up to the first failure. \<open>serial_loop\<close> is the \<^verbatim>\<open>for\<close> loop of the
  other branch, which runs one unit after the other and stops at an exception.
\<close>

type_synonym unit_of_work = "api_call \<times> event list"

fun executor_map ::
  "(nat \<Rightarrow> endpoint) \<Rightarrow> nat \<Rightarrow> api_call list \<Rightarrow> (error + string frame list) \<times> unit_of_work list" where
  "executor_map net k [] = (Inr [], [])"
| "executor_map net k (a # rest) =
     (case check_batch (net k) a of
        (Inl e, ev) \<Rightarrow> (Inl e, [(a, ev)])
      | (Inr r, ev) \<Rightarrow>
          (case executor_map net (k + 1) rest of
             (Inl e, us) \<Rightarrow> (Inl e, (a, ev) # us)
           | (Inr rs, us) \<Rightarrow> (Inr (r # rs), (a, ev) # us)))"

fun serial_loop ::
  "(nat \<Rightarrow> endpoint) \<Rightarrow> api_server list \<Rightarrow> string list \<Rightarrow> nat \<Rightarrow> batch list \<Rightarrow>
   string frame list \<Rightarrow> unit_of_work list \<Rightarrow> (error + string frame list) \<times> unit_of_work list" where
  "serial_loop net servers flds k [] process_results us = (Inr process_results, us)"
| "serial_loop net servers flds k (b # batch_list) process_results us =
     (case check_batch (net k) (ApiCall_init servers 0 flds b) of
        (Inl e, ev) \<Rightarrow> (Inl e, us @ [(ApiCall_init servers 0 flds b, ev)])
      | (Inr batch_df, ev) \<Rightarrow>
          serial_loop net servers flds (k + 1) batch_list (process_results @ [batch_df])
            (us @ [(ApiCall_init servers 0 flds b, ev)]))"

text \<open>
  \<^verbatim>\<open>pd.concat(frames, ignore_index=False)\<close>: ValueError for an empty list; otherwise
  the row labels one frame after the other, and every column of any frame, in the order
  of first appearance, with NaN (\<open>None\<close>) for the rows of a frame that lacks it.
\<close>

fun union_names :: "string list \<Rightarrow> string list \<Rightarrow> string list" where
  "union_names seen [] = seen"
| "union_names seen (c # cs) = union_names (if c \<in> set seen then seen else seen @ [c]) cs"

definition concat_column :: "string frame list \<Rightarrow> string \<Rightarrow> string option list" where
  "concat_column fs c =
     concat (map (\<lambda>f. case map_of (columns f) c of
                         Some vs \<Rightarrow> map Some vs
                       | None \<Rightarrow> replicate (shape0 f) None) fs)"

definition pd_concat :: "string frame list \<Rightarrow> error + string option frame" where
  "pd_concat fs =
     (if fs = [] then Inl (ValueError ''No objects to concatenate'')
      else Inr \<lparr>index = concat (map index fs),
                columns = map (\<lambda>c. (c, concat_column fs c))
                              (union_names [] (concat (map (\<lambda>f. map fst (columns f)) fs)))\<rparr>)"

definition MAX_THREADS :: int where
  "MAX_THREADS = 30"

text \<open>
  What a run of \<^verbatim>\<open>process_chunk\<close> / \<^verbatim>\<open>process_data\<close> leaves: the returned
  DataFrame or the exception, the units of work, and the \<^verbatim>\<open>max_workers\<close> asked of the
  ThreadPoolExecutor (\<open>None\<close> in the serial branch). A ThreadPoolExecutor refuses
  \<^verbatim>\<open>max_workers <= 0\<close> with ValueError.
\<close>

record run =
  returned :: "error + string option frame"
  units :: "unit_of_work list"
  max_workers :: "int option"

definition process_chunk ::
  "(nat \<Rightarrow> endpoint) \<Rightarrow> api_server list \<Rightarrow> bool \<Rightarrow> batch list \<Rightarrow> string list \<Rightarrow> run option" where
  "process_chunk net servers multi_thread batch_list refiner_fields =
     (let thread_count = length batch_list in
      if length servers > 1 \<or> multi_thread then
        (case assign_outer servers refiner_fields batch_list [] of
           None \<Rightarrow> None
         | Some proc_list \<Rightarrow>
             (let workers = min (int thread_count) MAX_THREADS in
              if workers \<le> 0 then
                Some \<lparr>returned = Inl (ValueError ''max_workers must be greater than 0''),
                      units = [], max_workers = Some workers\<rparr>
              else
                (case executor_map net 0 proc_list of
                   (Inl e, us) \<Rightarrow> Some \<lparr>returned = Inl e, units = us, max_workers = Some workers\<rparr>
                 | (Inr process_results, us) \<Rightarrow>
                     Some \<lparr>returned = pd_concat process_results, units = us,
                           max_workers = Some workers\<rparr>)))
      else
        (case serial_loop net servers refiner_fields 0 batch_list [] [] of
           (Inl e, us) \<Rightarrow> Some \<lparr>returned = Inl e, units = us, max_workers = None\<rparr>
         | (Inr process_results, us) \<Rightarrow>
             Some \<lparr>returned = pd_concat process_results, units = us, max_workers = None\<rparr>))"

text \<open>
  The part of the Config object the pipeline reads, and \<^verbatim>\<open>check_chunk\<close> (inside
  \<^verbatim>\<open>check_addresses\<close>) and \<^verbatim>\<open>check_df\<close> (inside \<^verbatim>\<open>check_data_frame\<close>), which
  are the same code: plan the batches, then process them.
\<close>

record ini =
  ini_api_servers :: "api_server list"
  api_batch_size :: int
  multi_threaded_mode :: bool
  refiner_output_fields :: "string list"

definition check_chunk :: "(nat \<Rightarrow> endpoint) \<Rightarrow> ini \<Rightarrow> dataset \<Rightarrow> run option" where
  "check_chunk net cfg in_df =
     (case plan (api_batch_size cfg) in_df of
        None \<Rightarrow> None
      | Some (api_data, batch_count) \<Rightarrow>
          process_chunk net (ini_api_servers cfg) (multi_threaded_mode cfg) api_data
            (refiner_output_fields cfg))"

definition check_df :: "(nat \<Rightarrow> endpoint) \<Rightarrow> ini \<Rightarrow> dataset \<Rightarrow> run option" where
  "check_df net cfg in_df = check_chunk net cfg in_df"

section \<open>Reading a trace\<close>

text \<open>
  The events of one transient failure, numbered from 0: the POST, the log entry with
  the attempt count, and the sleep. \<open>attempts\<close> counts the POSTs of a trace, \<open>slept\<close>
  adds up its sleeps, \<open>targets\<close> collects the URLs posted to. A retry sequence is
  \<open>exhausted\<close> when each of its ten attempts meets ConnectionError.
\<close>

definition failed_attempt :: "string \<Rightarrow> string \<Rightarrow> nat \<Rightarrow> event list" where
  "failed_attempt url body i =
     [Post url body, Log [LStr ''Call Failed - ConnectionError'', LInt (int i + 1)],
      Sleep (1 + 3 * int i)]"

definition attempts :: "event list \<Rightarrow> nat" where
  "attempts ev = length (filter (\<lambda>e. case e of Post u d \<Rightarrow> True | _ \<Rightarrow> False) ev)"

definition slept :: "event list \<Rightarrow> int" where
  "slept ev = sum_list (map (\<lambda>e. case e of Sleep s \<Rightarrow> s | _ \<Rightarrow> 0) ev)"

definition targets :: "event list \<Rightarrow> string list" where
  "targets ev = concat (map (\<lambda>e. case e of Post u d \<Rightarrow> [u] | _ \<Rightarrow> []) ev)"

definition exhausted :: "endpoint \<Rightarrow> api_call \<Rightarrow> bool" where
  "exhausted ep api =
     (case list_item (api_servers api) (api_server_id api) of
        Inl e \<Rightarrow> False
      | Inr api_server \<Rightarrow>
          list_all (\<lambda>i. ep (uri_stem api_server) (data api) i = Raises ConnectionError) [0..<10])"

section \<open>Config\<close>

text \<open>
  The two containers of \<^verbatim>\<open>Config\<close> are subclasses of \<^verbatim>\<open>dict\<close> and \<^verbatim>\<open>list\<close>.
  A call is a method with its arguments. Beside the methods the two classes override,
  the calls include the mutating methods they inherit: \<^verbatim>\<open>__iadd__\<close> (the statement
  \<^verbatim>\<open>xs += vs\<close>), \<^verbatim>\<open>__imul__\<close> (\<^verbatim>\<open>xs *= n\<close>), \<^verbatim>\<open>reverse\<close> and \<^verbatim>\<open>sort\<close> of a
  list, and \<^verbatim>\<open>__ior__\<close> (\<^verbatim>\<open>d |= other\<close>) of a dict. An index is an integer (slices
  are left out), \<^verbatim>\<open>update\<close> and \<^verbatim>\<open>__ior__\<close> take one mapping, \<^verbatim>\<open>sort\<close> takes a key
  function into the integers, and a default that the caller leaves out of
  \<^verbatim>\<open>setdefault\<close> is the value \<^verbatim>\<open>None\<close>.
\<close>

datatype 'v dict_call =
    Dict_setitem string 'v
  | Dict_delitem string
  | Dict_clear
  | Dict_update "(string \<times> 'v) list"
  | Dict_pop string "'v option"
  | Dict_popitem
  | Dict_setdefault string 'v
  | Dict_ior "(string \<times> 'v) list"

datatype 'a list_call =
    List_setitem int 'a
  | List_delitem int
  | List_append 'a
  | List_extend "'a list"
  | List_insert int 'a
  | List_remove 'a
  | List_pop int
  | List_clear
  | List_iadd "'a list"
  | List_imul int
  | List_reverse
  | List_sort "'a \<Rightarrow> int"

text \<open>
  What the built-in classes do. A dict is its items in insertion order, with one item
  per key; a call gives the exception or a normal return (the returned value itself is
  not kept), and the contents afterwards. Elements compare by value in
  \<^verbatim>\<open>list.remove\<close>.
\<close>

fun dict_store :: "string \<Rightarrow> 'v \<Rightarrow> (string \<times> 'v) list \<Rightarrow> (string \<times> 'v) list" where
  "dict_store k v [] = [(k, v)]"
| "dict_store k v (p # d) = (if fst p = k then (k, v) # d else p # dict_store k v d)"

definition dict_merge :: "(string \<times> 'v) list \<Rightarrow> (string \<times> 'v) list \<Rightarrow> (string \<times> 'v) list" where
  "dict_merge other d = fold (\<lambda>p. dict_store (fst p) (snd p)) other d"

fun dict_method :: "'v dict_call \<Rightarrow> (string \<times> 'v) list \<Rightarrow> (error + unit) \<times> (string \<times> 'v) list" where
  "dict_method (Dict_setitem k v) d = (Inr (), dict_store k v d)"
| "dict_method (Dict_delitem k) d =
     (if k \<in> set (map fst d) then (Inr (), filter (\<lambda>p. fst p \<noteq> k) d) else (Inl (KeyError k), d))"
| "dict_method Dict_clear d = (Inr (), [])"
| "dict_method (Dict_update other) d = (Inr (), dict_merge other d)"
| "dict_method (Dict_pop k dflt) d =
     (if k \<in> set (map fst d) then (Inr (), filter (\<lambda>p. fst p \<noteq> k) d)
      else (case dflt of None \<Rightarrow> (Inl (KeyError k), d) | Some v \<Rightarrow> (Inr (), d)))"
| "dict_method Dict_popitem d =
     (if d = [] then (Inl (KeyError ''popitem(): dictionary is empty''), d) else (Inr (), butlast d))"
| "dict_method (Dict_setdefault k v) d =
     (if k \<in> set (map fst d) then (Inr (), d) else (Inr (), d @ [(k, v)]))"
| "dict_method (Dict_ior other) d = (Inr (), dict_merge other d)"

definition position :: "int \<Rightarrow> nat \<Rightarrow> nat option" where
  "position i n =
     (if 0 \<le> i \<and> i < int n then Some (nat i)
      else if i < 0 \<and> - int n \<le> i then Some (nat (i + int n))
      else None)"

fun list_method :: "'a list_call \<Rightarrow> 'a list \<Rightarrow> (error + unit) \<times> 'a list" where
  "list_method (List_setitem i v) xs =
     (case position i (length xs) of
        None \<Rightarrow> (Inl IndexError, xs)
      | Some k \<Rightarrow> (Inr (), xs[k := v]))"
| "list_method (List_delitem i) xs =
     (case position i (length xs) of
        None \<Rightarrow> (Inl IndexError, xs)
      | Some k \<Rightarrow> (Inr (), take k xs @ drop (Suc k) xs))"
| "list_method (List_append v) xs = (Inr (), xs @ [v])"
| "list_method (List_extend vs) xs = (Inr (), xs @ vs)"
| "list_method (List_insert i v) xs =
     (Inr (), take (clip i (length xs)) xs @ v # drop (clip i (length xs)) xs)"
| "list_method (List_remove v) xs =
     (if v \<in> set xs then (Inr (), remove1 v xs)
      else (Inl (ValueError ''list.remove(x): x not in list''), xs))"
| "list_method (List_pop i) xs =
     (case position i (length xs) of
        None \<Rightarrow> (Inl IndexError, xs)
      | Some k \<Rightarrow> (Inr (), take k xs @ drop (Suc k) xs))"
| "list_method List_clear xs = (Inr (), [])"
| "list_method (List_iadd vs) xs = (Inr (), xs @ vs)"
| "list_method (List_imul n) xs = (Inr (), concat (replicate (nat n) xs))"
| "list_method List_reverse xs = (Inr (), rev xs)"
| "list_method (List_sort key) xs = (Inr (), sort_key key xs)"

text \<open>
  The bodies of the two classes: for each method they define, the exception it raises;
  \<open>None\<close> for a method they do not define.
\<close>

fun ImmutableDict_body :: "'v dict_call \<Rightarrow> error option" where
  "ImmutableDict_body (Dict_setitem k v) =
     Some (TypeError ''This dictionary is immutable and cannot be changed.'')"
| "ImmutableDict_body (Dict_delitem k) =
     Some (TypeError ''This dictionary is immutable and cannot be changed.'')"
| "ImmutableDict_body Dict_clear =
     Some (TypeError ''This dictionary is immutable and cannot be cleared.'')"
| "ImmutableDict_body (Dict_update other) =
     Some (TypeError ''This dictionary is immutable and cannot be updated.'')"
| "ImmutableDict_body (Dict_pop k dflt) =
     Some (TypeError ''This dictionary is immutable and cannot be changed.'')"
| "ImmutableDict_body Dict_popitem =
     Some (TypeError ''This dictionary is immutable and cannot be changed.'')"
| "ImmutableDict_body (Dict_setdefault k v) =
     Some (TypeError ''This dictionary is immutable and cannot be changed.'')"
| "ImmutableDict_body (Dict_ior other) = None"

fun ImmutableList_body :: "'a list_call \<Rightarrow> error option" where
  "ImmutableList_body (List_setitem i v) =
     Some (TypeError ''This list is immutable and cannot be changed.'')"
| "ImmutableList_body (List_delitem i) =
     Some (TypeError ''This list is immutable and cannot be deleted.'')"
| "ImmutableList_body (List_append v) =
     Some (TypeError ''This list is immutable and cannot be changed.'')"
| "ImmutableList_body (List_extend vs) =
     Some (TypeError ''This list is immutable and cannot be extended.'')"
| "ImmutableList_body (List_insert i v) =
     Some (TypeError ''This list is immutable and cannot be changed.'')"
| "ImmutableList_body (List_remove v) =
     Some (TypeError ''This list is immutable and cannot be changed.'')"
| "ImmutableList_body (List_pop i) =
     Some (TypeError ''This list is immutable and cannot be changed.'')"
| "ImmutableList_body List_clear =
     Some (TypeError ''This list is immutable and cannot be cleared.'')"
| "ImmutableList_body (List_iadd vs) = None"
| "ImmutableList_body (List_imul n) = None"
| "ImmutableList_body List_reverse = None"
| "ImmutableList_body (List_sort key) = None"

text \<open>
  A call on an object of the class runs the method of the class when the class
  defines it, and the inherited method otherwise.
\<close>

definition ImmutableDict :: "'v dict_call \<Rightarrow> (string \<times> 'v) list \<Rightarrow> (error + unit) \<times> (string \<times> 'v) list" where
  "ImmutableDict c d =
     (case ImmutableDict_body c of Some e \<Rightarrow> (Inl e, d) | None \<Rightarrow> dict_method c d)"

definition ImmutableList :: "'a list_call \<Rightarrow> 'a list \<Rightarrow> (error + unit) \<times> 'a list" where
  "ImmutableList c xs =
     (case ImmutableList_body c of Some e \<Rightarrow> (Inl e, xs) | None \<Rightarrow> list_method c xs)"

text \<open>
  A Config object holds its settings in an ImmutableDict and its servers in an
  ImmutableList, which the property \<^verbatim>\<open>api_servers\<close> returns. A caller can reach
  both objects. \<open>attempt\<close> is one call on one of them: through the object
  (\<^verbatim>\<open>ini.api_servers.reverse()\<close>), or with the method taken from the built-in class
  (\<^verbatim>\<open>list.append(ini.api_servers, x)\<close>), which passes by the class.
\<close>

record 'v config =
  APP_SETTINGS :: "(string \<times> 'v) list"
  API_SERVERS :: "api_server list"

definition Config_api_servers :: "'v config \<Rightarrow> api_server list" where
  "Config_api_servers cfg = API_SERVERS cfg"

datatype 'v mutation =
    OnSettings "'v dict_call"
  | OnServers "api_server list_call"
  | BuiltinOnSettings "'v dict_call"
  | BuiltinOnServers "api_server list_call"

fun attempt :: "'v mutation \<Rightarrow> 'v config \<Rightarrow> (error + unit) \<times> 'v config" where
  "attempt (OnSettings c) cfg =
     (fst (ImmutableDict c (APP_SETTINGS cfg)),
      cfg\<lparr>APP_SETTINGS := snd (ImmutableDict c (APP_SETTINGS cfg))\<rparr>)"
| "attempt (OnServers c) cfg =
     (fst (ImmutableList c (Config_api_servers cfg)),
      cfg\<lparr>API_SERVERS := snd (ImmutableList c (Config_api_servers cfg))\<rparr>)"
| "attempt (BuiltinOnSettings c) cfg =
     (fst (dict_method c (APP_SETTINGS cfg)),
      cfg\<lparr>APP_SETTINGS := snd (dict_method c (APP_SETTINGS cfg))\<rparr>)"
| "attempt (BuiltinOnServers c) cfg =
     (fst (list_method c (Config_api_servers cfg)),
      cfg\<lparr>API_SERVERS := snd (list_method c (Config_api_servers cfg))\<rparr>)"

section \<open>Properties\<close>

subsection \<open>Strings and columns\<close>

lemma split_first_decompose:
  "r = split_first c r \<or> (\<exists>rest. r = split_first c r @ c # rest)"
  unfolding split_first_def
proof (induction r)
  case Nil
  then show ?case by simp
next
  case (Cons a r)
  then show ?case by auto
qed

lemma split_first_free: "c \<notin> set (split_first c r)"
  unfolding split_first_def by (auto dest: set_takeWhileD)

lemma split_first_id: "c \<notin> set r \<Longrightarrow> split_first c r = r"
  unfolding split_first_def by (induction r) auto

lemma last_chars_pad:
  "last_chars n (replicate n z @ p) = replicate (n - length p) z @ last_chars n p"
  unfolding last_chars_def by simp

lemma last_chars_short: "length p \<le> n \<Longrightarrow> last_chars n p = p"
  unfolding last_chars_def by simp

lemma zeros8: "''00000000'' = replicate 8 CHR ''0''"
  by (simp add: numeral_eq_Suc)

lemma zeros12: "''000000000000'' = replicate 12 CHR ''0''"
  by (simp add: numeral_eq_Suc)

lemma norm_udprn_eq:
  "norm_udprn r = replicate (8 - length (split_first CHR ''.'' r)) CHR ''0'' @
                  last_chars 8 (split_first CHR ''.'' r)"
  unfolding norm_udprn_def zeros8 by (rule last_chars_pad)

lemma norm_uprn_eq:
  "norm_uprn r = replicate (12 - length (split_first CHR ''.'' r)) CHR ''0'' @
                 last_chars 12 (split_first CHR ''.'' r)"
  unfolding norm_uprn_def zeros12 by (rule last_chars_pad)

lemma length_norm_udprn: "length (norm_udprn r) = 8"
  unfolding norm_udprn_eq last_chars_def by auto

lemma length_norm_uprn: "length (norm_uprn r) = 12"
  unfolding norm_uprn_eq last_chars_def by auto

lemma map_of_assign_column:
  "map_of (assign_column cs c vs) = (map_of cs)(c \<mapsto> vs)"
  by (induction cs c vs rule: assign_column.induct) auto

lemma names_assign_column:
  "map fst (assign_column cs c vs) =
     (if c \<in> set (map fst cs) then map fst cs else map fst cs @ [c])"
  by (induction cs c vs rule: assign_column.induct) auto

lemma getitem_assign_same:
  "getitem (f\<lparr>columns := assign_column (columns f) c vs\<rparr>) c = Inr vs"
  by (simp add: getitem_def map_of_assign_column)

lemma getitem_assign_other:
  "c \<noteq> d \<Longrightarrow> getitem (f\<lparr>columns := assign_column (columns f) c vs\<rparr>) d = getitem f d"
  by (simp add: getitem_def map_of_assign_column)

lemma getitem_names: "getitem f c = Inr x \<Longrightarrow> c \<in> set (map fst (columns f))"
  by (auto simp: getitem_def split: option.splits dest: map_of_SomeD intro: rev_image_eqI)

lemma shape0_columns [simp]: "shape0 (f\<lparr>columns := cs\<rparr>) = shape0 f"
  by (simp add: shape0_def)

lemma shape0_setitem_scalar [simp]: "shape0 (setitem_scalar f c v) = shape0 f"
  by (simp add: setitem_scalar_def)

lemma index_setitem_scalar [simp]: "index (setitem_scalar f c v) = index f"
  by (simp add: setitem_scalar_def)

lemma getitem_setitem_scalar_same:
  "getitem (setitem_scalar f c v) c = Inr (replicate (shape0 f) v)"
  by (simp add: setitem_scalar_def getitem_assign_same)

lemma getitem_setitem_scalar_other:
  "c \<noteq> d \<Longrightarrow> getitem (setitem_scalar f c v) d = getitem f d"
  by (simp add: setitem_scalar_def getitem_assign_other)

lemma shape0_fold_setitem [simp]:
  "shape0 (fold (\<lambda>f b. setitem_scalar b f v) flds b0) = shape0 b0"
  by (induction flds arbitrary: b0) auto

lemma index_fold_setitem [simp]:
  "index (fold (\<lambda>f b. setitem_scalar b f v) flds b0) = index b0"
  by (induction flds arbitrary: b0) auto

lemma shape0_fill_sentinels [simp]: "shape0 (fill_sentinels flds b) = shape0 b"
  by (simp add: fill_sentinels_def Let_def)

lemma getitem_fill_sentinels:
  "getitem (fill_sentinels flds b) ''UDPRN'' = Inr (replicate (shape0 b) ''00000000'')"
  "getitem (fill_sentinels flds b) ''UPRN'' = Inr (replicate (shape0 b) ''000000000000'')"
  "getitem (fill_sentinels flds b) ''Closeness'' = Inr (replicate (shape0 b) ''0'')"
  by (simp_all add: fill_sentinels_def Let_def getitem_setitem_scalar_same
        getitem_setitem_scalar_other)

lemma after_parse_degraded:
  "shape1 t \<le> 2 \<Longrightarrow>
   after_parse api t =
     (if length (batch_index api) \<noteq> shape0 t then Inl (ValueError ''Length mismatch'')
      else Inr ((fill_sentinels (out_fields api) t)\<lparr>index := batch_index api\<rparr>))"
  by (simp add: after_parse_def set_index_def)

lemma normalise_columns_ok:
  assumes "getitem t ''UDPRN'' = Inr u" "getitem t ''UPRN'' = Inr v"
    "getitem t ''Closeness'' = Inr w"
  shows "\<exists>b. normalise_columns t = Inr b \<and> index b = index t
           \<and> map fst (columns b) = map fst (columns t)
           \<and> getitem b ''UDPRN'' = Inr (map norm_udprn u)
           \<and> getitem b ''UPRN'' = Inr (map norm_uprn v)
           \<and> getitem b ''Closeness'' = Inr (map norm_closeness w)"
proof -
  define b1 where "b1 = t\<lparr>columns := assign_column (columns t) ''UDPRN'' (map norm_udprn u)\<rparr>"
  define b2 where "b2 = b1\<lparr>columns := assign_column (columns b1) ''UPRN'' (map norm_uprn v)\<rparr>"
  define b3 where
    "b3 = b2\<lparr>columns := assign_column (columns b2) ''Closeness'' (map norm_closeness w)\<rparr>"
  have s1: "apply_column t ''UDPRN'' norm_udprn = Inr b1"
    using assms(1) by (simp add: apply_column_def b1_def)
  have g1: "getitem b1 ''UPRN'' = Inr v" "getitem b1 ''Closeness'' = Inr w"
    "getitem b1 ''UDPRN'' = Inr (map norm_udprn u)"
    using assms by (simp_all add: b1_def getitem_assign_other getitem_assign_same)
  have s2: "apply_column b1 ''UPRN'' norm_uprn = Inr b2"
    using g1(1) by (simp add: apply_column_def b2_def)
  have g2: "getitem b2 ''Closeness'' = Inr w" "getitem b2 ''UDPRN'' = Inr (map norm_udprn u)"
    "getitem b2 ''UPRN'' = Inr (map norm_uprn v)"
    using g1 by (simp_all add: b2_def getitem_assign_other getitem_assign_same)
  have s3: "apply_column b2 ''Closeness'' norm_closeness = Inr b3"
    using g2(1) by (simp add: apply_column_def b3_def)
  have g3: "getitem b3 ''UDPRN'' = Inr (map norm_udprn u)"
    "getitem b3 ''UPRN'' = Inr (map norm_uprn v)"
    "getitem b3 ''Closeness'' = Inr (map norm_closeness w)"
    using g2 by (simp_all add: b3_def getitem_assign_other getitem_assign_same)
  have n1: "map fst (columns b1) = map fst (columns t)"
    using getitem_names[OF assms(1)] by (simp add: b1_def names_assign_column)
  have n2: "map fst (columns b2) = map fst (columns t)"
    using getitem_names[OF g1(1)] n1 by (simp add: b2_def names_assign_column)
  have n3: "map fst (columns b3) = map fst (columns t)"
    using getitem_names[OF g2(1)] n2 by (simp add: b3_def names_assign_column)
  have "normalise_columns t = Inr b3"
    by (simp add: normalise_columns_def s1 s2 s3)
  moreover have "index b3 = index t"
    by (simp add: b3_def b2_def b1_def)
  ultimately show ?thesis using g3 n3 by blast
qed

subsection \<open>Response normalization\<close>

text \<open>
  C8. In the branch for a response of more than two columns, every UDPRN, UPRN and
  Closeness cell is cut at its first full stop, so a trailing fractional part goes.
  The identifier is then written after eight (twelve) zeros and the last eight
  (twelve) characters are kept: a value of at most that width is left-padded with
  zeros to the width, a value of exactly that width is unchanged, and the result has
  the fixed width in every case (of a longer value the last characters remain).
  \<^verbatim>\<open>"123.0"\<close> becomes \<^verbatim>\<open>"00000123"\<close>. When the three columns are there and the
  batch has one label per row, the call returns the table with exactly these cells,
  the other columns and the column order untouched, under the labels of the batch.
\<close>

theorem normalization_truncates_and_pads:
  "(r = split_first CHR ''.'' r \<or> (\<exists>frac. r = split_first CHR ''.'' r @ CHR ''.'' # frac))
   \<and> CHR ''.'' \<notin> set (split_first CHR ''.'' r)
   \<and> norm_closeness r = split_first CHR ''.'' r
   \<and> length (norm_udprn r) = 8
   \<and> length (norm_uprn r) = 12
   \<and> (length (split_first CHR ''.'' r) \<le> 8 \<longrightarrow>
        norm_udprn r = replicate (8 - length (split_first CHR ''.'' r)) CHR ''0'' @
                       split_first CHR ''.'' r)
   \<and> (length (split_first CHR ''.'' r) \<le> 12 \<longrightarrow>
        norm_uprn r = replicate (12 - length (split_first CHR ''.'' r)) CHR ''0'' @
                      split_first CHR ''.'' r)
   \<and> (length r = 8 \<and> CHR ''.'' \<notin> set r \<longrightarrow> norm_udprn r = r)
   \<and> (length r = 12 \<and> CHR ''.'' \<notin> set r \<longrightarrow> norm_uprn r = r)
   \<and> norm_udprn ''123.0'' = ''00000123''
   \<and> norm_uprn ''00000000123'' = ''000000000123''
   \<and> (2 < shape1 t \<and> getitem t ''UDPRN'' = Inr u \<and> getitem t ''UPRN'' = Inr v
        \<and> getitem t ''Closeness'' = Inr w \<and> length (batch_index api) = shape0 t \<longrightarrow>
        (\<exists>b. after_parse api t = Inr b
            \<and> index b = batch_index api
            \<and> map fst (columns b) = map fst (columns t)
            \<and> getitem b ''UDPRN'' = Inr (map norm_udprn u)
            \<and> getitem b ''UPRN'' = Inr (map norm_uprn v)
            \<and> getitem b ''Closeness'' = Inr (map norm_closeness w)))"
proof -
  have a: "r = split_first CHR ''.'' r \<or> (\<exists>frac. r = split_first CHR ''.'' r @ CHR ''.'' # frac)"
    by (rule split_first_decompose)
  have b: "CHR ''.'' \<notin> set (split_first CHR ''.'' r)"
    by (rule split_first_free)
  have c: "norm_closeness r = split_first CHR ''.'' r"
    by (simp add: norm_closeness_def)
  have d: "length (split_first CHR ''.'' r) \<le> 8 \<longrightarrow>
        norm_udprn r = replicate (8 - length (split_first CHR ''.'' r)) CHR ''0'' @
                       split_first CHR ''.'' r"
    by (simp add: norm_udprn_eq last_chars_short)
  have e: "length (split_first CHR ''.'' r) \<le> 12 \<longrightarrow>
        norm_uprn r = replicate (12 - length (split_first CHR ''.'' r)) CHR ''0'' @
                      split_first CHR ''.'' r"
    by (simp add: norm_uprn_eq last_chars_short)
  have f: "length r = 8 \<and> CHR ''.'' \<notin> set r \<longrightarrow> norm_udprn r = r"
    by (simp add: norm_udprn_eq last_chars_short split_first_id)
  have g: "length r = 12 \<and> CHR ''.'' \<notin> set r \<longrightarrow> norm_uprn r = r"
    by (simp add: norm_uprn_eq last_chars_short split_first_id)
  have h: "norm_udprn ''123.0'' = ''00000123''"
    by (simp add: norm_udprn_def last_chars_def split_first_def)
  have i: "norm_uprn ''00000000123'' = ''000000000123''"
    by (simp add: norm_uprn_def last_chars_def split_first_def)
  have j: "2 < shape1 t \<and> getitem t ''UDPRN'' = Inr u \<and> getitem t ''UPRN'' = Inr v
        \<and> getitem t ''Closeness'' = Inr w \<and> length (batch_index api) = shape0 t \<longrightarrow>
        (\<exists>b. after_parse api t = Inr b
            \<and> index b = batch_index api
            \<and> map fst (columns b) = map fst (columns t)
            \<and> getitem b ''UDPRN'' = Inr (map norm_udprn u)
            \<and> getitem b ''UPRN'' = Inr (map norm_uprn v)
            \<and> getitem b ''Closeness'' = Inr (map norm_closeness w))"
  proof
    assume h: "2 < shape1 t \<and> getitem t ''UDPRN'' = Inr u \<and> getitem t ''UPRN'' = Inr v
        \<and> getitem t ''Closeness'' = Inr w \<and> length (batch_index api) = shape0 t"
    then obtain b where b: "normalise_columns t = Inr b" "index b = index t"
      "map fst (columns b) = map fst (columns t)"
      "getitem b ''UDPRN'' = Inr (map norm_udprn u)"
      "getitem b ''UPRN'' = Inr (map norm_uprn v)"
      "getitem b ''Closeness'' = Inr (map norm_closeness w)"
      using normalise_columns_ok[of t u v w] by blast
    have "after_parse api t = Inr (b\<lparr>index := batch_index api\<rparr>)"
      using h b(1,2) by (simp add: after_parse_def set_index_def shape0_def)
    moreover have "getitem (b\<lparr>index := batch_index api\<rparr>) c = getitem b c" for c
      by (simp add: getitem_def)
    ultimately show "\<exists>b. after_parse api t = Inr b
            \<and> index b = batch_index api
            \<and> map fst (columns b) = map fst (columns t)
            \<and> getitem b ''UDPRN'' = Inr (map norm_udprn u)
            \<and> getitem b ''UPRN'' = Inr (map norm_uprn v)
            \<and> getitem b ''Closeness'' = Inr (map norm_closeness w)"
      using b by simp
  qed
  show ?thesis
    using a b c d e f g h i j length_norm_udprn[of r] length_norm_uprn[of r] by blast
qed

theorem normalization_witness:
  "norm_udprn ''12345678'' = ''12345678''
   \<and> norm_uprn ''123456789012'' = ''123456789012''
   \<and> norm_udprn ''42.75'' = ''00000042''
   \<and> norm_uprn ''42.75'' = ''000000000042''
   \<and> (\<exists>b. after_parse (ApiCall_init [] 0 [] (''1 High Street'', [7]))
              \<lparr>index = [0], columns = [(''UDPRN'', [''123.0'']), (''UPRN'', [''00000000123'']),
                                        (''Closeness'', [''87.5''])]\<rparr> = Inr b
          \<and> index b = [7]
          \<and> getitem b ''UDPRN'' = Inr [''00000123'']
          \<and> getitem b ''UPRN'' = Inr [''000000000123'']
          \<and> getitem b ''Closeness'' = Inr [''87''])"
proof -
  let ?t = "\<lparr>index = [0::nat], columns = [(''UDPRN'', [''123.0'']), (''UPRN'', [''00000000123'']),
                                        (''Closeness'', [''87.5''])]\<rparr>"
  let ?api = "ApiCall_init [] 0 [] (''1 High Street'', [7])"
  have p: "split_first CHR ''.'' ''42.75'' = ''42''"
    by (simp add: split_first_def)
  have 1: "norm_udprn ''12345678'' = ''12345678''"
    using normalization_truncates_and_pads[of "''12345678''" ?t "[''123.0'']" "[''00000000123'']" "[''87.5'']" ?api]
    by simp
  have 2: "norm_uprn ''123456789012'' = ''123456789012''"
    using normalization_truncates_and_pads[of "''123456789012''" ?t "[''123.0'']" "[''00000000123'']" "[''87.5'']" ?api]
    by simp
  have 3: "norm_udprn ''42.75'' = ''00000042'' \<and> norm_uprn ''42.75'' = ''000000000042''"
    using normalization_truncates_and_pads[of "''42.75''" ?t "[''123.0'']" "[''00000000123'']" "[''87.5'']" ?api]
    by (simp add: p numeral_eq_Suc)
  have n: "map norm_udprn [''123.0''] = [''00000123'']" "map norm_uprn [''00000000123''] = [''000000000123'']"
    "map norm_closeness [''87.5''] = [''87'']"
    by (simp_all add: norm_udprn_def norm_uprn_def norm_closeness_def last_chars_def split_first_def)
  have hyp: "2 < shape1 ?t \<and> getitem ?t ''UDPRN'' = Inr [''123.0'']
        \<and> getitem ?t ''UPRN'' = Inr [''00000000123'']
        \<and> getitem ?t ''Closeness'' = Inr [''87.5''] \<and> length (batch_index ?api) = shape0 ?t"
    by (simp add: getitem_def shape1_def shape0_def ApiCall_init_def)
  have "\<exists>b. after_parse ?api ?t = Inr b
          \<and> index b = batch_index ?api
          \<and> map fst (columns b) = map fst (columns ?t)
          \<and> getitem b ''UDPRN'' = Inr (map norm_udprn [''123.0''])
          \<and> getitem b ''UPRN'' = Inr (map norm_uprn [''00000000123''])
          \<and> getitem b ''Closeness'' = Inr (map norm_closeness [''87.5''])"
    using normalization_truncates_and_pads[of "''42.75''" ?t "[''123.0'']" "[''00000000123'']" "[''87.5'']" ?api]
      hyp by blast
  then have 4: "\<exists>b. after_parse ?api ?t = Inr b
          \<and> index b = [7]
          \<and> getitem b ''UDPRN'' = Inr [''00000123'']
          \<and> getitem b ''UPRN'' = Inr [''000000000123'']
          \<and> getitem b ''Closeness'' = Inr [''87'']"
    unfolding n by (auto simp: ApiCall_init_def)
  show ?thesis using 1 2 3 4 by blast
qed

subsection \<open>The retry loop\<close>

lemma get_server_keep:
  "get_server api False = (list_item (api_servers api) (api_server_id api), api)"
  by (simp add: get_server_def)

lemma call_api_transient:
  assumes "list_item (api_servers api) (api_server_id api) = Inr srv"
    and "ep (uri_stem srv) (data api) i = Raises ConnectionError"
  shows "call_api ep api i = (Inl ConnectionError, api, [Post (uri_stem srv) (data api)])"
  using assms by (simp add: call_api_def get_server_keep on_exception_def)

lemma call_api_parsed:
  assumes "list_item (api_servers api) (api_server_id api) = Inr srv"
    and "ep (uri_stem srv) (data api) i = Parsed t"
  shows "call_api ep api i = (after_parse api t, api, [Post (uri_stem srv) (data api)])"
  using assms by (simp add: call_api_def get_server_keep)

lemma loop_done: "check_batch_loop ep api 10 timer res ev = (Inr res, ev)"
  by (subst check_batch_loop.simps) simp

lemma loop_transient:
  assumes "list_item (api_servers api) (api_server_id api) = Inr srv"
    and "j < 10"
    and "ep (uri_stem srv) (data api) j = Raises ConnectionError"
  shows "check_batch_loop ep api j timer res ev =
         check_batch_loop ep api (Suc j) (timer + 3) res
           (ev @ [Post (uri_stem srv) (data api),
                  Log [LStr ''Call Failed - ConnectionError'', LInt (int j + 1)], Sleep timer])"
  using assms
  by (subst check_batch_loop.simps) (simp add: call_api_transient sleep_timer_increment_def)

lemma loop_transients:
  assumes srv: "list_item (api_servers api) (api_server_id api) = Inr srv"
  shows "j + k \<le> 10 \<Longrightarrow>
         (\<forall>i. j \<le> i \<and> i < j + k \<longrightarrow> ep (uri_stem srv) (data api) i = Raises ConnectionError) \<Longrightarrow>
         check_batch_loop ep api j (1 + 3 * int j) res ev =
         check_batch_loop ep api (j + k) (1 + 3 * int (j + k)) res
           (ev @ concat (map (failed_attempt (uri_stem srv) (data api)) [j..<j + k]))"
proof (induction k arbitrary: j ev)
  case 0
  then show ?case by simp
next
  case (Suc k)
  have fail: "ep (uri_stem srv) (data api) j = Raises ConnectionError"
    using Suc.prems(2) by simp
  have step: "check_batch_loop ep api j (1 + 3 * int j) res ev =
        check_batch_loop ep api (Suc j) (1 + 3 * int (Suc j)) res
          (ev @ failed_attempt (uri_stem srv) (data api) j)"
    using loop_transient[where ep=ep and api=api and srv=srv and j=j
        and timer="1 + 3 * int j" and res=res and ev=ev]
      srv fail Suc.prems(1)
    by (simp add: failed_attempt_def algebra_simps)
  have rest: "check_batch_loop ep api (Suc j) (1 + 3 * int (Suc j)) res
          (ev @ failed_attempt (uri_stem srv) (data api) j) =
        check_batch_loop ep api (Suc j + k) (1 + 3 * int (Suc j + k)) res
          ((ev @ failed_attempt (uri_stem srv) (data api) j) @
           concat (map (failed_attempt (uri_stem srv) (data api)) [Suc j..<Suc j + k]))"
    using Suc.prems by (intro Suc.IH) auto
  have "[j..<j + Suc k] = j # [Suc j..<Suc j + k]"
    by (simp add: upt_conv_Cons)
  then show ?case using step rest by simp
qed

lemma loop_success:
  assumes "list_item (api_servers api) (api_server_id api) = Inr srv"
    and "k < 10"
    and "ep (uri_stem srv) (data api) k = Parsed t"
    and "after_parse api t = Inr r"
  shows "check_batch_loop ep api k timer res ev = (Inr r, ev @ [Post (uri_stem srv) (data api)])"
  using assms
  by (subst check_batch_loop.simps) (simp add: call_api_parsed loop_done)

lemma attempts_failed:
  "attempts (concat (map (failed_attempt u d) ks) @ ev) = length ks + attempts ev"
  by (induction ks) (simp_all add: attempts_def failed_attempt_def)

lemma slept_failed:
  "slept (concat (map (failed_attempt u d) ks) @ ev) = (\<Sum>i\<leftarrow>ks. 1 + 3 * int i) + slept ev"
  by (induction ks) (simp_all add: slept_def failed_attempt_def)

lemma targets_failed:
  "targets (concat (map (failed_attempt u d) ks) @ ev) = replicate (length ks) u @ targets ev"
  by (induction ks) (simp_all add: targets_def failed_attempt_def)

lemma check_batch_retry:
  assumes srv: "list_item (api_servers api) (api_server_id api) = Inr srv"
    and k: "k < 10"
    and fail: "\<forall>i<k. ep (uri_stem srv) (data api) i = Raises ConnectionError"
    and ok: "ep (uri_stem srv) (data api) k = Parsed t" "after_parse api t = Inr r"
  shows "check_batch ep api =
           (Inr r, concat (map (failed_attempt (uri_stem srv) (data api)) [0..<k]) @
                   [Post (uri_stem srv) (data api)])"
proof -
  have "check_batch_loop ep api 0 (1 + 3 * int 0) empty_frame [] =
        check_batch_loop ep api (0 + k) (1 + 3 * int (0 + k)) empty_frame
          ([] @ concat (map (failed_attempt (uri_stem srv) (data api)) [0..<0 + k]))"
    using k fail by (intro loop_transients[OF srv]) auto
  then show ?thesis
    using loop_success[where ep=ep and api=api and srv=srv and k=k and t=t and r=r] srv k ok
    by (simp add: check_batch_def sleep_timer_def)
qed

lemma check_batch_exhausted:
  assumes srv: "list_item (api_servers api) (api_server_id api) = Inr srv"
    and fail: "\<forall>i<10. ep (uri_stem srv) (data api) i = Raises ConnectionError"
  shows "check_batch ep api =
           (Inr empty_frame, concat (map (failed_attempt (uri_stem srv) (data api)) [0..<10]))"
proof -
  have "check_batch_loop ep api 0 (1 + 3 * int 0) empty_frame [] =
        check_batch_loop ep api (0 + 10) (1 + 3 * int (0 + 10)) empty_frame
          ([] @ concat (map (failed_attempt (uri_stem srv) (data api)) [0..<0 + 10]))"
    using fail by (intro loop_transients[OF srv]) auto
  then show ?thesis
    by (simp add: check_batch_def srv sleep_timer_def loop_done)
qed

text \<open>
  C3. Let the server of the call exist. If the first \<open>k < 10\<close> attempts meet
  ConnectionError and attempt \<open>k\<close> brings a response from which \<^verbatim>\<open>call_api\<close>
  returns a table, then \<^verbatim>\<open>check_batch\<close> returns that table; its events are, for each
  failure \<open>i\<close>, the POST, the log entry and a sleep of \<open>1 + 3 i\<close> seconds, then the last
  POST: \<open>k + 1\<close> attempts, \<open>\<Sum>i<k. (1 + 3 i)\<close> seconds slept, every POST to the URI of
  the same server. If all ten attempts meet ConnectionError, \<^verbatim>\<open>check_batch\<close> returns
  (the empty DataFrame it started with) after exactly ten attempts, all to that server,
  and raises nothing.
\<close>

theorem check_batch_retries_with_backoff:
  assumes "list_item (api_servers api) (api_server_id api) = Inr srv"
  shows "(k < 10 \<and> (\<forall>i<k. ep (uri_stem srv) (data api) i = Raises ConnectionError)
            \<and> ep (uri_stem srv) (data api) k = Parsed t \<and> after_parse api t = Inr r \<longrightarrow>
          check_batch ep api =
            (Inr r, concat (map (failed_attempt (uri_stem srv) (data api)) [0..<k]) @
                    [Post (uri_stem srv) (data api)])
          \<and> attempts (snd (check_batch ep api)) = k + 1
          \<and> slept (snd (check_batch ep api)) = (\<Sum>i<k. 1 + 3 * int i)
          \<and> targets (snd (check_batch ep api)) = replicate (k + 1) (uri_stem srv))
       \<and> ((\<forall>i<10. ep (uri_stem srv) (data api) i = Raises ConnectionError) \<longrightarrow>
          check_batch ep api =
            (Inr empty_frame, concat (map (failed_attempt (uri_stem srv) (data api)) [0..<10]))
          \<and> attempts (snd (check_batch ep api)) = 10
          \<and> targets (snd (check_batch ep api)) = replicate 10 (uri_stem srv))"
proof (intro conjI impI)
  assume h: "k < 10 \<and> (\<forall>i<k. ep (uri_stem srv) (data api) i = Raises ConnectionError)
            \<and> ep (uri_stem srv) (data api) k = Parsed t \<and> after_parse api t = Inr r"
  have eq: "check_batch ep api =
            (Inr r, concat (map (failed_attempt (uri_stem srv) (data api)) [0..<k]) @
                    [Post (uri_stem srv) (data api)])"
    using check_batch_retry[where ep=ep and api=api and srv=srv and k=k and t=t and r=r] assms h
    by blast
  show "check_batch ep api =
            (Inr r, concat (map (failed_attempt (uri_stem srv) (data api)) [0..<k]) @
                    [Post (uri_stem srv) (data api)])"
    by (rule eq)
  show "attempts (snd (check_batch ep api)) = k + 1"
    by (simp add: eq attempts_failed) (simp add: attempts_def)
  have "(\<Sum>i\<leftarrow>[0..<k]. 1 + 3 * int i) = (\<Sum>i<k. 1 + 3 * int i)"
    by (simp add: interv_sum_list_conv_sum_set_nat atLeast0LessThan)
  then show "slept (snd (check_batch ep api)) = (\<Sum>i<k. 1 + 3 * int i)"
    by (simp add: eq slept_failed) (simp add: slept_def)
  show "targets (snd (check_batch ep api)) = replicate (k + 1) (uri_stem srv)"
    by (simp add: eq targets_failed) (simp add: targets_def replicate_append_same)
next
  assume h: "\<forall>i<10. ep (uri_stem srv) (data api) i = Raises ConnectionError"
  have eq: "check_batch ep api =
            (Inr empty_frame, concat (map (failed_attempt (uri_stem srv) (data api)) [0..<10]))"
    using check_batch_exhausted[where ep=ep and api=api and srv=srv] assms h by blast
  show "check_batch ep api =
            (Inr empty_frame, concat (map (failed_attempt (uri_stem srv) (data api)) [0..<10]))"
    by (rule eq)
  show "attempts (snd (check_batch ep api)) = 10"
    using attempts_failed[of "uri_stem srv" "data api" "[0..<10]" "[]"]
    by (simp add: eq attempts_def)
  show "targets (snd (check_batch ep api)) = replicate 10 (uri_stem srv)"
    using targets_failed[of "uri_stem srv" "data api" "[0..<10]" "[]"]
    by (simp add: eq targets_def)
qed

theorem check_batch_retries_witness:
  "check_batch (\<lambda>url body i. if i < 2 then Raises ConnectionError
                               else Parsed \<lparr>index = [0], columns = [(''Result'', [''-7''])]\<rparr>)
     (ApiCall_init [\<lparr>name = ''A'', root = ''http://a'', uri_stem = ''http://a&format=json'',
                      multi_thread_mode = False, init_result = ''Working'', online = True\<rparr>]
        0 [] (''1 High Street'', [7]))
   = (Inr \<lparr>index = [7], columns = [(''Result'', [''-7'']), (''UDPRN'', [''00000000'']),
                                    (''UPRN'', [''000000000000'']), (''Closeness'', [''0''])]\<rparr>,
      [Post ''http://a&format=json'' ''1 High Street'',
       Log [LStr ''Call Failed - ConnectionError'', LInt 1], Sleep 1,
       Post ''http://a&format=json'' ''1 High Street'',
       Log [LStr ''Call Failed - ConnectionError'', LInt 2], Sleep 4,
       Post ''http://a&format=json'' ''1 High Street''])
   \<and> attempts (snd (check_batch (\<lambda>url body i. Raises ConnectionError)
        (ApiCall_init [\<lparr>name = ''A'', root = ''http://a'', uri_stem = ''http://a&format=json'',
                         multi_thread_mode = False, init_result = ''Working'', online = True\<rparr>]
           0 [] (''1 High Street'', [7])))) = 10
   \<and> fst (check_batch (\<lambda>url body i. Raises ConnectionError)
        (ApiCall_init [\<lparr>name = ''A'', root = ''http://a'', uri_stem = ''http://a&format=json'',
                         multi_thread_mode = False, init_result = ''Working'', online = True\<rparr>]
           0 [] (''1 High Street'', [7]))) = Inr empty_frame"
proof -
  let ?srv = "\<lparr>name = ''A'', root = ''http://a'', uri_stem = ''http://a&format=json'',
                multi_thread_mode = False, init_result = ''Working'', online = True\<rparr>"
  let ?api = "ApiCall_init [?srv] 0 [] (''1 High Street'', [7])"
  let ?t = "\<lparr>index = [0::nat], columns = [(''Result'', [''-7''])]\<rparr>"
  let ?r = "\<lparr>index = [7::nat], columns = [(''Result'', [''-7'']), (''UDPRN'', [''00000000'']),
                                    (''UPRN'', [''000000000000'']), (''Closeness'', [''0''])]\<rparr>"
  let ?ep = "\<lambda>(url::string) (body::string) (i::nat). if i < 2 then Raises ConnectionError else Parsed ?t"
  let ?down = "\<lambda>(url::string) (body::string) (i::nat). Raises ConnectionError"
  have srv: "list_item (api_servers ?api) (api_server_id ?api) = Inr ?srv"
    by (simp add: list_item_def ApiCall_init_def)
  have ok: "after_parse ?api ?t = Inr ?r"
    by (simp add: after_parse_def shape1_def shape0_def set_index_def fill_sentinels_def
        setitem_scalar_def ApiCall_init_def)
  have up: "(2::nat) < 10 \<and> (\<forall>i<2. ?ep (uri_stem ?srv) (data ?api) i = Raises ConnectionError)
            \<and> ?ep (uri_stem ?srv) (data ?api) 2 = Parsed ?t \<and> after_parse ?api ?t = Inr ?r"
    using ok by simp
  have down: "\<forall>i<10. ?down (uri_stem ?srv) (data ?api) i = Raises ConnectionError"
    by simp
  have l: "[0..<2] = [0, 1]"
    by (simp add: upt_conv_Cons)
  have 1: "check_batch ?ep ?api =
            (Inr ?r, concat (map (failed_attempt (uri_stem ?srv) (data ?api)) [0..<2]) @
                    [Post (uri_stem ?srv) (data ?api)])"
    using check_batch_retries_with_backoff[where api="?api" and srv="?srv" and k=2 and ep="?ep"
        and t="?t" and r="?r", OF srv] up by blast
  have first: "check_batch ?ep ?api =
      (Inr ?r,
       [Post ''http://a&format=json'' ''1 High Street'',
        Log [LStr ''Call Failed - ConnectionError'', LInt 1], Sleep 1,
        Post ''http://a&format=json'' ''1 High Street'',
        Log [LStr ''Call Failed - ConnectionError'', LInt 2], Sleep 4,
        Post ''http://a&format=json'' ''1 High Street''])"
    unfolding 1 by (simp add: l failed_attempt_def ApiCall_init_def)
  have 2: "attempts (snd (check_batch ?down ?api)) = 10"
    using check_batch_retries_with_backoff[where api="?api" and srv="?srv" and ep="?down", OF srv] down
    by blast
  have "check_batch ?down ?api =
            (Inr empty_frame, concat (map (failed_attempt (uri_stem ?srv) (data ?api)) [0..<10]))"
    using check_batch_retries_with_backoff[where api="?api" and srv="?srv" and ep="?down", OF srv] down
    by blast
  then have 3: "fst (check_batch ?down ?api) = Inr empty_frame"
    by simp
  show ?thesis
    using first 2 3 by blast
qed

subsection \<open>Planning\<close>

lemma iloc_window:
  "0 < b \<Longrightarrow> iloc xs (int f) (int f + int b) = take b (drop f xs)"
  by (auto simp: iloc_def clip_def min_def not_le nat_add_distrib simp flip: of_nat_add)


lemma ceil_step:
  assumes b: "0 < (b::nat)" and f: "f < n"
  shows "(n - f + b - 1) div b = Suc ((n - (f + b) + b - 1) div b)"
proof -
  define d where "d = n - f - 1"
  have 1: "n - f + b - 1 = d + b"
    using f by (simp add: d_def)
  have 2: "(n - (f + b) + b - 1) div b = d div b"
  proof (cases "f + b \<le> n")
    case True
    then have "n - (f + b) + b - 1 = d" using b by (simp add: d_def)
    then show ?thesis by simp
  next
    case False
    then have "n - (f + b) + b - 1 = b - 1" and "d < b" using f by (simp_all add: d_def)
    then show ?thesis using b by simp
  qed
  have "(d + b) div b = Suc (d div b)"
    using b by (simp add: div_add_self2)
  then show ?thesis
    unfolding 1 2 .
qed

lemma plan_loop_from:
  assumes b: "0 < b"
  shows "plan_loop (int b) in_df (int f) (int (length in_df)) acc c =
         Some (acc @ map (\<lambda>k. make_batch (take b (drop (f + k * b) in_df)))
                         [0..<(length in_df - f + b - 1) div b],
               c + (length in_df - f + b - 1) div b)"
proof (induction "length in_df - f" arbitrary: f acc c rule: less_induct)
  case less
  show ?case
  proof (cases "f < length in_df")
    case False
    then have "(length in_df - f + b - 1) div b = 0" using b by simp
    then show ?thesis using False by (subst plan_loop.simps) simp
  next
    case True
    let ?m = "(length in_df - (f + b) + b - 1) div b"
    have m: "(length in_df - f + b - 1) div b = Suc ?m"
      using ceil_step[OF b True] .
    have ih: "plan_loop (int b) in_df (int (f + b)) (int (length in_df))
               (acc @ [make_batch (take b (drop f in_df))]) (c + 1) =
         Some ((acc @ [make_batch (take b (drop f in_df))]) @
                 map (\<lambda>k. make_batch (take b (drop ((f + b) + k * b) in_df))) [0..<?m],
               (c + 1) + ?m)"
      using True b by (intro less.hyps) simp
    have shift: "map (\<lambda>k. make_batch (take b (drop (f + k * b) in_df))) [0..<Suc ?m] =
          make_batch (take b (drop f in_df)) #
          map (\<lambda>k. make_batch (take b (drop ((f + b) + k * b) in_df))) [0..<?m]"
      by (simp add: map_upt_Suc add.assoc del: upt_Suc)
    have step: "plan_loop (int b) in_df (int f) (int (length in_df)) acc c =
          plan_loop (int b) in_df (int (f + b)) (int (length in_df))
               (acc @ [make_batch (take b (drop f in_df))]) (c + 1)"
      using True b by (subst plan_loop.simps) (simp add: iloc_window)
    show ?thesis
      unfolding m shift step ih by simp
  qed
qed

lemma concat_windows:
  assumes b: "0 < b"
  shows "concat (map (\<lambda>k. take b (drop (f + k * b) xs)) [0..<(length xs - f + b - 1) div b]) =
         drop f xs"
proof (induction "length xs - f" arbitrary: f rule: less_induct)
  case less
  show ?case
  proof (cases "f < length xs")
    case False
    then have "(length xs - f + b - 1) div b = 0" using b by simp
    then show ?thesis using False by simp
  next
    case True
    let ?m = "(length xs - (f + b) + b - 1) div b"
    have m: "(length xs - f + b - 1) div b = Suc ?m"
      using ceil_step[OF b True] .
    have ih: "concat (map (\<lambda>k. take b (drop ((f + b) + k * b) xs)) [0..<?m]) = drop (f + b) xs"
      using True b by (intro less.hyps) simp
    have shift: "map (\<lambda>k. take b (drop (f + k * b) xs)) [0..<Suc ?m] =
          take b (drop f xs) # map (\<lambda>k. take b (drop ((f + b) + k * b) xs)) [0..<?m]"
      by (simp add: map_upt_Suc add.assoc del: upt_Suc)
    have "take b (drop f xs) @ drop (f + b) xs = drop f xs"
      by (metis add.commute append_take_drop_id drop_drop)
    with ih show ?thesis
      unfolding m shift by simp
  qed
qed

lemma window_inside:
  assumes b: "0 < (b::nat)" and k: "k < (n + b - 1) div b"
  shows "k * b < n"
proof -
  have "Suc k \<le> (n + b - 1) div b" using k by simp
  then have "Suc k * b \<le> n + b - 1"
    using b by (simp add: less_eq_div_iff_mult_less_eq)
  then show ?thesis using b by (cases n) auto
qed

lemma plan_labels:
  assumes "0 < B" and "plan B in_df = Some (api_data, c)"
  shows "concat (map snd api_data) = map fst in_df"
proof -
  define b where "b = nat B"
  have b: "0 < b" and B: "B = int b"
    using assms(1) by (simp_all add: b_def)
  have "plan_loop (int b) in_df (int 0) (int (length in_df)) [] 0 =
        Some ([] @ map (\<lambda>k. make_batch (take b (drop (0 + k * b) in_df)))
                       [0..<(length in_df - 0 + b - 1) div b],
              0 + (length in_df - 0 + b - 1) div b)"
    using b by (rule plan_loop_from)
  then have "api_data = map make_batch (map (\<lambda>k. take b (drop (k * b) in_df))
                                           [0..<(length in_df + b - 1) div b])"
    using assms(2) by (auto simp: plan_def B comp_def)
  moreover have "concat (map (\<lambda>k. take b (drop (k * b) in_df))
                             [0..<(length in_df + b - 1) div b]) = in_df"
    using concat_windows[OF b, of 0 in_df] by simp
  moreover have "concat (map (\<lambda>x. map f (g x)) ks) = map f (concat (map g ks))"
    for f :: "nat \<times> string \<Rightarrow> nat" and g :: "nat \<Rightarrow> dataset" and ks
    by (induction ks) simp_all
  ultimately show ?thesis
    by (simp add: make_batch_def comp_def)
qed

text \<open>
  C5. With a batch size \<open>B > 0\<close> the planning loop ends, and it gives
  \<open>\<lceil>N / B\<rceil> = (N + B - 1) div B\<close> batches for the \<open>N\<close> rows of the dataset (the batch
  count it keeps is the same number). Batch \<open>k\<close> is made of the rows at positions
  \<open>k B\<close> up to \<open>k B + B\<close>: a contiguous slice, not empty, of at most \<open>B\<close> rows, in
  dataset order. Its payload is the rows' request lines joined with newlines and its
  index is the rows' own labels. The slices one after the other are the dataset, and so
  the batches' labels one after the other are the dataset's labels.
\<close>

theorem plan_makes_ceil_batches:
  assumes "0 < B"
  shows "\<exists>slices.
           plan B in_df = Some (map make_batch slices, length slices)
         \<and> length slices = (length in_df + nat B - 1) div nat B
         \<and> slices = map (\<lambda>k. take (nat B) (drop (k * nat B) in_df)) [0..<length slices]
         \<and> list_all (\<lambda>s. s \<noteq> [] \<and> length s \<le> nat B) slices
         \<and> concat slices = in_df
         \<and> map fst (map make_batch slices) = map (\<lambda>s. str_join [newline] (map snd s)) slices
         \<and> map snd (map make_batch slices) = map (map fst) slices
         \<and> concat (map snd (map make_batch slices)) = map fst in_df"
proof -
  define b where "b = nat B"
  define m where "m = (length in_df + b - 1) div b"
  define slices where "slices = map (\<lambda>k. take b (drop (k * b) in_df)) [0..<m]"
  have b: "0 < b" and B: "B = int b"
    using assms by (simp_all add: b_def)
  have len: "length slices = m"
    by (simp add: slices_def)
  have "plan_loop (int b) in_df (int 0) (int (length in_df)) [] 0 =
        Some ([] @ map (\<lambda>k. make_batch (take b (drop (0 + k * b) in_df)))
                       [0..<(length in_df - 0 + b - 1) div b],
              0 + (length in_df - 0 + b - 1) div b)"
    using b by (rule plan_loop_from)
  then have p: "plan B in_df = Some (map make_batch slices, length slices)"
    by (simp add: plan_def B slices_def m_def)
  have c: "concat slices = in_df"
    using concat_windows[OF b, of 0 in_df] by (simp add: slices_def m_def)
  have "s \<noteq> [] \<and> length s \<le> b" if "s \<in> set slices" for s
  proof -
    from that obtain k where k: "k < m" and s: "s = take b (drop (k * b) in_df)"
      by (auto simp: slices_def)
    have "k * b < length in_df"
      using window_inside[OF b] k by (simp add: m_def)
    then show ?thesis using b by (simp add: s)
  qed
  then have a: "list_all (\<lambda>s. s \<noteq> [] \<and> length s \<le> b) slices"
    by (simp add: list_all_iff)
  have i: "concat (map snd (map make_batch slices)) = map fst in_df"
    using c by (simp add: make_batch_def comp_def map_concat[symmetric])
  have "plan B in_df = Some (map make_batch slices, length slices)
         \<and> length slices = (length in_df + nat B - 1) div nat B
         \<and> slices = map (\<lambda>k. take (nat B) (drop (k * nat B) in_df)) [0..<length slices]
         \<and> list_all (\<lambda>s. s \<noteq> [] \<and> length s \<le> nat B) slices
         \<and> concat slices = in_df
         \<and> map fst (map make_batch slices) = map (\<lambda>s. str_join [newline] (map snd s)) slices
         \<and> map snd (map make_batch slices) = map (map fst) slices
         \<and> concat (map snd (map make_batch slices)) = map fst in_df"
    using p c a i len by (simp add: b_def[symmetric] m_def make_batch_def comp_def) (simp add: slices_def m_def)
  then show ?thesis ..
qed

theorem plan_witness:
  "plan 2 [(10, ''a''), (11, ''b''), (12, ''c'')] =
     Some ([(''a'' @ [newline] @ ''b'', [10, 11]), (''c'', [12])], 2)"
proof -
  obtain slices where
    p: "plan 2 [(10, ''a''), (11, ''b''), (12, ''c'')] = Some (map make_batch slices, length slices)"
    and n: "length slices = (length [(10::nat, ''a''), (11, ''b''), (12, ''c'')] + nat 2 - 1) div nat 2"
    and s: "slices = map (\<lambda>k. take (nat 2) (drop (k * nat 2) [(10::nat, ''a''), (11, ''b''), (12, ''c'')]))
                         [0..<length slices]"
    using plan_makes_ceil_batches[of 2 "[(10, ''a''), (11, ''b''), (12, ''c'')]"] by auto
  have n2: "length slices = 2"
    using n by simp
  have "[0..<2] = [0, 1]"
    by (simp add: upt_conv_Cons)
  then have "slices = [[(10, ''a''), (11, ''b'')], [(12, ''c'')]]"
    using s unfolding n2 by simp
  then show ?thesis
    using p by (simp add: make_batch_def)
qed

subsection \<open>Dispatch\<close>

lemma assign_inner_eq:
  "assign_inner servers flds s bl pl =
     (drop (length servers - s) bl,
      pl @ map (\<lambda>(i, b). ApiCall_init servers i flds b) (enumerate s (take (length servers - s) bl)))"
proof (induction bl arbitrary: s pl)
  case Nil
  then show ?case by simp
next
  case (Cons b bl)
  show ?case
  proof (cases "s < length servers")
    case True
    then have "length servers - s = Suc (length servers - Suc s)" by simp
    then show ?thesis using True Cons.IH[of "Suc s"] by simp
  next
    case False
    then show ?thesis by simp
  qed
qed

lemma enumerate_shift_mod:
  "map (\<lambda>(i, b). g (i mod K) b) (enumerate (K + j) xs) =
   map (\<lambda>(i, b). g (i mod K) b) (enumerate j xs)"
proof (induction xs arbitrary: j)
  case Nil
  then show ?case by simp
next
  case (Cons x xs)
  have "map (\<lambda>(i, b). g (i mod K) b) (enumerate (K + Suc j) xs) =
        map (\<lambda>(i, b). g (i mod K) b) (enumerate (Suc j) xs)"
    by (rule Cons.IH)
  then show ?case by simp
qed

lemma enumerate_small_mod:
  "j + length xs \<le> K \<Longrightarrow>
   map (\<lambda>(i, b). g (i mod K) b) (enumerate j xs) = map (\<lambda>(i, b). g i b) (enumerate j xs)"
proof (induction xs arbitrary: j)
  case Nil
  then show ?case by simp
next
  case (Cons x xs)
  have "map (\<lambda>(i, b). g (i mod K) b) (enumerate (Suc j) xs) =
        map (\<lambda>(i, b). g i b) (enumerate (Suc j) xs)"
    using Cons.prems by (intro Cons.IH) simp
  moreover have "j mod K = j"
    using Cons.prems by simp
  ultimately show ?case by (simp del: map_eq_conv)
qed

lemma assign_outer_eq:
  assumes K: "servers \<noteq> []"
  shows "assign_outer servers flds bl pl =
         Some (pl @ map (\<lambda>(i, b). ApiCall_init servers (i mod length servers) flds b)
                        (enumerate 0 bl))"
proof (induction "length bl" arbitrary: bl pl rule: less_induct)
  case less
  let ?K = "length servers"
  let ?g = "\<lambda>i b. ApiCall_init servers i flds b"
  have K0: "0 < ?K" using K by simp
  show ?case
  proof (cases "bl = []")
    case True
    then show ?thesis by (subst assign_outer.simps) simp
  next
    case False
    have shorter: "length (drop ?K bl) < length bl"
      using False K0 by simp
    have ih: "assign_outer servers flds (drop ?K bl)
                (pl @ map (\<lambda>(i, b). ?g i b) (enumerate 0 (take ?K bl))) =
          Some ((pl @ map (\<lambda>(i, b). ?g i b) (enumerate 0 (take ?K bl))) @
                map (\<lambda>(i, b). ?g (i mod ?K) b) (enumerate 0 (drop ?K bl)))"
      using shorter by (rule less.hyps)
    have step: "assign_outer servers flds bl pl =
          assign_outer servers flds (drop ?K bl)
            (pl @ map (\<lambda>(i, b). ?g i b) (enumerate 0 (take ?K bl)))"
      using False by (subst assign_outer.simps) (simp add: assign_inner_eq)
    have "enumerate 0 bl = enumerate 0 (take ?K bl) @ enumerate (length (take ?K bl)) (drop ?K bl)"
      by (metis add_0 append_take_drop_id enumerate_append_eq)
    then have split: "map (\<lambda>(i, b). ?g (i mod ?K) b) (enumerate 0 bl) =
          map (\<lambda>(i, b). ?g (i mod ?K) b) (enumerate 0 (take ?K bl)) @
          map (\<lambda>(i, b). ?g (i mod ?K) b) (enumerate (length (take ?K bl)) (drop ?K bl))"
      by simp
    have first: "map (\<lambda>(i, b). ?g (i mod ?K) b) (enumerate 0 (take ?K bl)) =
          map (\<lambda>(i, b). ?g i b) (enumerate 0 (take ?K bl))"
      by (rule enumerate_small_mod) simp
    have second: "map (\<lambda>(i, b). ?g (i mod ?K) b) (enumerate (length (take ?K bl)) (drop ?K bl)) =
          map (\<lambda>(i, b). ?g (i mod ?K) b) (enumerate 0 (drop ?K bl))"
    proof (cases "?K \<le> length bl")
      case True
      then have "length (take ?K bl) = ?K + 0" by simp
      then show ?thesis using enumerate_shift_mod[of ?g ?K 0 "drop ?K bl"] by simp
    next
      case False
      then show ?thesis by simp
    qed
    show ?thesis
      unfolding step ih split first second by simp
  qed
qed

subsection \<open>What a retry sequence returns\<close>

lemma ApiSetupError_api_key:
  "\<exists>ps. ApiSetupError_init [EStr ''api_key'', EFrame b, EBytes d] =
          ApiSetupError ''API Response Error'' ps"
  by (simp add: ApiSetupError_init_def err_dict_def)

lemma on_exception_transient:
  "on_exception api e b = ConnectionError \<longleftrightarrow> e = ConnectionError"
  using ApiSetupError_api_key[of b "data api"]
  by (cases e) (auto simp: on_exception_def)

lemma set_index_Inr: "set_index f idx = Inr g \<Longrightarrow> index g = idx \<and> columns g = columns f"
  by (auto simp: set_index_def split: if_splits)

lemma set_index_not_transient: "set_index f idx \<noteq> Inl ConnectionError"
  by (simp add: set_index_def)

lemma after_parse_index: "after_parse api t = Inr r \<Longrightarrow> index r = batch_index api"
  by (auto simp: after_parse_def split: if_splits sum.splits dest: set_index_Inr)

lemma after_parse_not_transient: "after_parse api t \<noteq> Inl ConnectionError"
  by (auto simp: after_parse_def on_exception_transient set_index_not_transient
      normalise_columns_def apply_column_def getitem_def
      split: if_splits sum.splits option.splits)

lemma call_api_cases:
  assumes "list_item (api_servers api) (api_server_id api) = Inr srv"
  shows "\<exists>x ev. call_api ep api n = (x, api, Post (uri_stem srv) (data api) # ev)
           \<and> attempts ev = 0 \<and> slept ev = 0 \<and> targets ev = []
           \<and> (x = Inl ConnectionError \<longleftrightarrow> ep (uri_stem srv) (data api) n = Raises ConnectionError)
           \<and> (x = Inl ConnectionError \<longrightarrow> ev = [])
           \<and> (\<forall>r. x = Inr r \<longrightarrow> index r = batch_index api)"
proof (cases "ep (uri_stem srv) (data api) n")
  case (Raises e)
  then show ?thesis
    using assms
    by (simp add: call_api_def get_server_keep on_exception_transient attempts_def slept_def
        targets_def)
next
  case (XMLSyntaxError r_out)
  then show ?thesis
    using assms after_parse_not_transient[of api empty_frame]
    by (auto simp: call_api_def get_server_keep attempts_def slept_def targets_def
        dest: after_parse_index)
next
  case (Parsed t)
  then show ?thesis
    using assms after_parse_not_transient[of api t]
    by (auto simp: call_api_def get_server_keep attempts_def slept_def targets_def
        dest: after_parse_index)
qed

lemma attempts_append: "attempts (a @ b) = attempts a + attempts b"
  by (simp add: attempts_def)

lemma targets_append: "targets (a @ b) = targets a @ targets b"
  by (simp add: targets_def)

lemma loop_result:
  assumes srv: "list_item (api_servers api) (api_server_id api) = Inr srv"
  shows "n = 10 - j \<Longrightarrow> check_batch_loop ep api j timer res ev = (out, ev') \<Longrightarrow>
         set (targets ev') \<subseteq> set (targets ev) \<union> {uri_stem srv}
         \<and> (\<forall>r. out = Inr r \<longrightarrow>
               (if \<forall>i. j \<le> i \<and> i < 10 \<longrightarrow> ep (uri_stem srv) (data api) i = Raises ConnectionError
                then r = res else index r = batch_index api))"
proof (induction n arbitrary: j timer ev)
  case 0
  then have j: "\<not> j < 10" by simp
  then show ?case
    using "0.prems"(2) by (subst (asm) check_batch_loop.simps) auto
next
  case (Suc n)
  then have j: "j < 10" by simp
  obtain x evs where c: "call_api ep api j = (x, api, Post (uri_stem srv) (data api) # evs)"
    and t: "targets evs = []"
    and x: "x = Inl ConnectionError \<longleftrightarrow> ep (uri_stem srv) (data api) j = Raises ConnectionError"
    and e: "x = Inl ConnectionError \<longrightarrow> evs = []"
    and i: "\<forall>r. x = Inr r \<longrightarrow> index r = batch_index api"
    using call_api_cases[OF srv, of ep j] by blast
  show ?case
  proof (cases x)
    case (Inr r)
    then have "check_batch_loop ep api j timer res ev =
               (Inr r, ev @ Post (uri_stem srv) (data api) # evs)"
      using j c by (subst check_batch_loop.simps) (simp add: loop_done)
    moreover have "ep (uri_stem srv) (data api) j \<noteq> Raises ConnectionError"
      using x Inr by simp
    ultimately show ?thesis
      using Suc.prems(2) i Inr j t by (auto simp: targets_append targets_def)
  next
    case (Inl err)
    show ?thesis
    proof (cases "err = ConnectionError")
      case False
      then have "check_batch_loop ep api j timer res ev =
               (Inl err, ev @ Post (uri_stem srv) (data api) # evs)"
        using j c Inl by (subst check_batch_loop.simps) simp
      then show ?thesis
        using Suc.prems(2) t by (auto simp: targets_append targets_def)
    next
      case True
      let ?ev = "ev @ [Post (uri_stem srv) (data api),
                       Log [LStr ''Call Failed - ConnectionError'', LInt (int j + 1)], Sleep timer]"
      have step: "check_batch_loop ep api j timer res ev =
            check_batch_loop ep api (Suc j) (timer + sleep_timer_increment) res ?ev"
        using j c Inl True e by (subst check_batch_loop.simps) simp
      have ih: "set (targets ev') \<subseteq> set (targets ?ev) \<union> {uri_stem srv}
         \<and> (\<forall>r. out = Inr r \<longrightarrow>
               (if \<forall>i. Suc j \<le> i \<and> i < 10 \<longrightarrow> ep (uri_stem srv) (data api) i = Raises ConnectionError
                then r = res else index r = batch_index api))"
        using Suc.prems step by (intro Suc.IH) auto
      have here: "ep (uri_stem srv) (data api) j = Raises ConnectionError"
        using x Inl True by simp
      have "(\<forall>i. j \<le> i \<and> i < 10 \<longrightarrow> ep (uri_stem srv) (data api) i = Raises ConnectionError) \<longleftrightarrow>
            (\<forall>i. Suc j \<le> i \<and> i < 10 \<longrightarrow> ep (uri_stem srv) (data api) i = Raises ConnectionError)"
        using here by (metis Suc_leI le_neq_implies_less Suc_leD)
      then show ?thesis
        using ih by (auto simp: targets_append targets_def)
    qed
  qed
qed

lemma exhausted_iff:
  assumes "list_item (api_servers api) (api_server_id api) = Inr srv"
  shows "exhausted ep api \<longleftrightarrow> (\<forall>i<10. ep (uri_stem srv) (data api) i = Raises ConnectionError)"
  using assms by (auto simp: exhausted_def list_all_iff)

lemma check_batch_result:
  assumes "check_batch ep api = (Inr r, ev)"
  shows "if exhausted ep api then r = empty_frame else index r = batch_index api"
proof (cases "list_item (api_servers api) (api_server_id api)")
  case (Inl e)
  then show ?thesis using assms by (simp add: check_batch_def)
next
  case (Inr srv)
  then have "check_batch_loop ep api 0 sleep_timer empty_frame [] = (Inr r, ev)"
    using assms by (simp add: check_batch_def)
  from loop_result[OF Inr refl this] show ?thesis
    by (simp add: exhausted_iff[OF Inr])
qed

lemma check_batch_targets:
  assumes "list_item (api_servers api) (api_server_id api) = Inr srv"
  shows "set (targets (snd (check_batch ep api))) \<subseteq> {uri_stem srv}"
proof -
  obtain out ev where c: "check_batch_loop ep api 0 sleep_timer empty_frame [] = (out, ev)"
    by (cases "check_batch_loop ep api 0 sleep_timer empty_frame []")
  from loop_result[OF assms refl c] show ?thesis
    using assms c by (simp add: check_batch_def targets_def)
qed

lemma serial_loop_all:
  "serial_loop net servers flds k bl rs us = (Inr rs', us') \<Longrightarrow>
   us' = us @ map (\<lambda>(j, b). (ApiCall_init servers 0 flds b,
                              snd (check_batch (net j) (ApiCall_init servers 0 flds b))))
                  (enumerate k bl)
   \<and> (\<exists>new. rs' = rs @ new \<and>
        list_all2 (\<lambda>(j, b) r. fst (check_batch (net j) (ApiCall_init servers 0 flds b)) = Inr r)
                  (enumerate k bl) new)"
proof (induction bl arbitrary: k rs us)
  case Nil
  then show ?case by simp
next
  case (Cons b bl)
  let ?a = "ApiCall_init servers 0 flds b"
  obtain x ev where c: "check_batch (net k) ?a = (x, ev)" by (cases "check_batch (net k) ?a")
  show ?case
  proof (cases x)
    case (Inl e)
    then show ?thesis using Cons.prems c by simp
  next
    case (Inr df)
    then have "serial_loop net servers flds (Suc k) bl (rs @ [df]) (us @ [(?a, ev)]) = (Inr rs', us')"
      using Cons.prems c by simp
    from Cons.IH[OF this] obtain new where
      u: "us' = (us @ [(?a, ev)]) @ map (\<lambda>(j, b). (ApiCall_init servers 0 flds b,
                              snd (check_batch (net j) (ApiCall_init servers 0 flds b))))
                  (enumerate (Suc k) bl)"
      and r: "rs' = (rs @ [df]) @ new"
      and l: "list_all2 (\<lambda>(j, b) r. fst (check_batch (net j) (ApiCall_init servers 0 flds b)) = Inr r)
                  (enumerate (Suc k) bl) new"
      by blast
    have "rs' = rs @ (df # new) \<and>
          list_all2 (\<lambda>(j, b) r. fst (check_batch (net j) (ApiCall_init servers 0 flds b)) = Inr r)
                  (enumerate k (b # bl)) (df # new)"
      using r l c Inr by simp
    then show ?thesis using u c by auto
  qed
qed

lemma executor_map_all:
  "executor_map net k ps = (Inr rs, us) \<Longrightarrow>
   map fst us = ps
   \<and> list_all2 (\<lambda>(j, a) r. fst (check_batch (net j) a) = Inr r) (enumerate k ps) rs"
proof (induction ps arbitrary: k rs us)
  case Nil
  then show ?case by simp
next
  case (Cons a ps)
  obtain x ev where c: "check_batch (net k) a = (x, ev)" by (cases "check_batch (net k) a")
  obtain y vs where e: "executor_map net (Suc k) ps = (y, vs)"
    by (cases "executor_map net (Suc k) ps")
  show ?case
  proof (cases x)
    case (Inl err)
    then show ?thesis using Cons.prems c by simp
  next
    case (Inr r)
    show ?thesis
    proof (cases y)
      case (Inl err)
      then show ?thesis using Cons.prems c e Inr by simp
    next
      case (Inr rest)
      from Cons.IH[of "Suc k" rest vs] e Inr
      have "map fst vs = ps \<and>
            list_all2 (\<lambda>(j, a) r. fst (check_batch (net j) a) = Inr r) (enumerate (Suc k) ps) rest"
        by simp
      then show ?thesis using Cons.prems c e \<open>x = Inr r\<close> Inr by auto
    qed
  qed
qed

subsection \<open>The aggregated result\<close>

lemma plan_loop_returns:
  assumes "plan_loop B df f l acc c = Some y"
  shows "0 < B \<or> \<not> f < l"
proof -
  have step: "0 < B \<or> \<not> f < l"
    if ih: "\<And>B df f l acc c y. g B df f l acc c = Some y \<Longrightarrow> 0 < B \<or> \<not> f < l"
      and eq: "(if f < l then g B df (f + B) l (acc @ [make_batch (iloc df f (f + B))]) (c + 1)
                else Some (acc, c)) = Some y"
    for g :: "int \<Rightarrow> dataset \<Rightarrow> int \<Rightarrow> int \<Rightarrow> batch list \<Rightarrow> nat \<Rightarrow> (batch list \<times> nat) option"
      and B df f l acc c y
  proof (cases "f < l")
    case True
    then have "g B df (f + B) l (acc @ [make_batch (iloc df f (f + B))]) (c + 1) = Some y"
      using eq by simp
    then have "0 < B \<or> \<not> f + B < l"
      by (rule ih)
    then show ?thesis using True by auto
  next
    case False
    then show ?thesis by simp
  qed
  show ?thesis
    by (rule plan_loop.raw_induct[where P="\<lambda>B df f l acc c y. 0 < B \<or> \<not> f < l", OF step assms])
qed

lemma assign_outer_returns:
  assumes "assign_outer servers flds bl pl = Some y"
  shows "servers \<noteq> [] \<or> bl = []"
proof -
  have step: "servers \<noteq> [] \<or> bl = []"
    if ih: "\<And>servers flds bl pl y. g servers flds bl pl = Some y \<Longrightarrow> servers \<noteq> [] \<or> bl = []"
      and eq: "(if 0 < length bl
                then g servers flds (fst (assign_inner servers flds 0 bl pl))
                       (snd (assign_inner servers flds 0 bl pl))
                else Some pl) = Some y"
    for g :: "api_server list \<Rightarrow> string list \<Rightarrow> batch list \<Rightarrow> api_call list \<Rightarrow> api_call list option"
      and servers flds bl pl y
  proof (cases "bl = []")
    case True
    then show ?thesis by simp
  next
    case False
    then have "g servers flds (fst (assign_inner servers flds 0 bl pl))
                 (snd (assign_inner servers flds 0 bl pl)) = Some y"
      using eq by simp
    then have "servers \<noteq> [] \<or> fst (assign_inner servers flds 0 bl pl) = []"
      by (rule ih)
    then show ?thesis using False by (auto simp: assign_inner_eq)
  qed
  show ?thesis
    by (rule assign_outer.raw_induct[where P="\<lambda>servers flds bl pl y. servers \<noteq> [] \<or> bl = []",
          OF step assms])
qed

lemma pd_concat_index:
  "pd_concat rs = Inr out \<Longrightarrow> index out = concat (map index rs)"
  by (auto simp: pd_concat_def split: if_splits)

lemma check_batch_result_fst:
  assumes "fst (check_batch ep api) = Inr r"
  shows "index r = (if exhausted ep api then [] else batch_index api)"
proof -
  obtain ev where "check_batch ep api = (Inr r, ev)"
    using assms by (cases "check_batch ep api") simp
  from check_batch_result[OF this] show ?thesis
    by (auto simp: empty_frame_def)
qed

lemma results_index:
  "list_all2 (\<lambda>(j, a) r. fst (check_batch (net j) a) = Inr r) xs rs \<Longrightarrow>
   concat (map index rs) =
   concat (map (\<lambda>(j, a). if exhausted (net j) a then [] else batch_index a) xs)"
proof (induction rule: list_all2_induct)
  case Nil
  then show ?case by simp
next
  case (Cons x xs r rs)
  obtain j a where x: "x = (j, a)" by (cases x)
  show ?case
    using Cons check_batch_result_fst[of "net j" a r] by (simp add: x)
qed

lemma enumerate_map:
  "enumerate k (map f xs) = map (\<lambda>(j, x). (j, f x)) (enumerate k xs)"
  by (induction xs arbitrary: k) simp_all

lemma map_snd_snd_enumerate: "map (\<lambda>p. snd (snd p)) (enumerate k bl) = map snd bl"
  by (induction bl arbitrary: k) simp_all

lemma process_chunk_complete:
  assumes run: "process_chunk net servers multi bl flds = Some run"
    and out: "returned run = Inr out"
  shows "bl \<noteq> []
       \<and> map (\<lambda>u. batch_index (fst u)) (units run) = map snd bl
       \<and> (\<exists>rs. pd_concat rs = Inr out
             \<and> list_all2 (\<lambda>(j, a) r. fst (check_batch (net j) a) = Inr r)
                          (enumerate 0 (map fst (units run))) rs)"
proof (cases "1 < length servers \<or> multi")
  case True
  let ?pl = "map (\<lambda>(i, b). ApiCall_init servers (i mod length servers) flds b) (enumerate 0 bl)"
  obtain pl where pl: "assign_outer servers flds bl [] = Some pl"
    using run True by (auto simp: process_chunk_def split: option.splits)
  have ne: "bl \<noteq> []"
  proof
    assume "bl = []"
    then have "returned run = Inl (ValueError ''max_workers must be greater than 0'')"
      using run True pl by (auto simp: process_chunk_def MAX_THREADS_def)
    then show False using out by simp
  qed
  then have "servers \<noteq> []"
    using assign_outer_returns[OF pl] by simp
  then have pl_eq: "pl = ?pl"
    using assign_outer_eq[of servers flds bl "[]"] pl by simp
  have w: "\<not> min (int (length bl)) 30 \<le> 0"
    using ne by (simp add: min_def)
  obtain x us where e: "executor_map net 0 pl = (x, us)"
    by (cases "executor_map net 0 pl")
  have r: "run = (case x of Inl e \<Rightarrow> \<lparr>returned = Inl e, units = us,
                                        max_workers = Some (min (int (length bl)) 30)\<rparr>
                  | Inr rs \<Rightarrow> \<lparr>returned = pd_concat rs, units = us,
                                max_workers = Some (min (int (length bl)) 30)\<rparr>)"
    using run True pl e w by (auto simp: process_chunk_def MAX_THREADS_def Let_def split: sum.splits)
  then obtain rs where x: "x = Inr rs" and c: "pd_concat rs = Inr out" and u: "units run = us"
    using out by (cases x) auto
  have all: "map fst us = pl"
    and l: "list_all2 (\<lambda>(j, a) r. fst (check_batch (net j) a) = Inr r) (enumerate 0 pl) rs"
    using executor_map_all[of net 0 pl rs us] e x by simp_all
  have "map batch_index ?pl = map snd bl"
    by (simp add: ApiCall_init_def comp_def case_prod_unfold map_snd_snd_enumerate)
  then have "map batch_index (map fst us) = map snd bl"
    using all pl_eq by simp
  then have "map (\<lambda>u. batch_index (fst u)) us = map snd bl"
    by (simp add: comp_def)
  then show ?thesis
    using ne c l all u by auto
next
  case False
  let ?mk = "\<lambda>b. ApiCall_init servers 0 flds b"
  obtain x us where s: "serial_loop net servers flds 0 bl [] [] = (x, us)"
    by (cases "serial_loop net servers flds 0 bl [] []")
  have r: "run = (case x of Inl e \<Rightarrow> \<lparr>returned = Inl e, units = us, max_workers = None\<rparr>
                  | Inr rs \<Rightarrow> \<lparr>returned = pd_concat rs, units = us, max_workers = None\<rparr>)"
    using run False s by (auto simp: process_chunk_def split: sum.splits)
  then obtain rs where x: "x = Inr rs" and c: "pd_concat rs = Inr out" and u: "units run = us"
    using out by (cases x) auto
  have us: "us = map (\<lambda>(j, b). (?mk b, snd (check_batch (net j) (?mk b)))) (enumerate 0 bl)"
    and l: "list_all2 (\<lambda>(j, b) r. fst (check_batch (net j) (?mk b)) = Inr r) (enumerate 0 bl) rs"
    using serial_loop_all[of net servers flds 0 bl "[]" "[]" rs us] s x by auto
  have f: "map fst us = map ?mk bl"
    unfolding us by (induction bl rule: rev_induct) (simp_all add: enumerate_append_eq)
  have ne: "bl \<noteq> []"
  proof
    assume "bl = []"
    then have "rs = []" using l by simp
    then show False using c by (simp add: pd_concat_def)
  qed
  have l': "list_all2 (\<lambda>(j, a) r. fst (check_batch (net j) a) = Inr r)
              (enumerate 0 (map fst us)) rs"
    using l by (simp add: f enumerate_map list_all2_map1 case_prod_unfold)
  have "map (\<lambda>u. batch_index (fst u)) us = map batch_index (map fst us)"
    by simp
  also have "\<dots> = map snd bl"
    unfolding f by (simp add: ApiCall_init_def)
  finally show ?thesis
    using ne c l' u by auto
qed

lemma check_chunk_complete:
  assumes run: "check_chunk net cfg in_df = Some run"
    and out: "returned run = Inr out"
  shows "index out = concat (map (\<lambda>(k, a). if exhausted (net k) a then [] else batch_index a)
                                 (enumerate 0 (map fst (units run))))
       \<and> concat (map (\<lambda>u. batch_index (fst u)) (units run)) = map fst in_df"
proof -
  obtain api_data c where p: "plan (api_batch_size cfg) in_df = Some (api_data, c)"
    and pc: "process_chunk net (ini_api_servers cfg) (multi_threaded_mode cfg) api_data
               (refiner_output_fields cfg) = Some run"
    using run by (auto simp: check_chunk_def split: option.splits)
  from process_chunk_complete[OF pc out] obtain rs where
    ne: "api_data \<noteq> []"
    and bi: "map (\<lambda>u. batch_index (fst u)) (units run) = map snd api_data"
    and c: "pd_concat rs = Inr out"
    and l: "list_all2 (\<lambda>(j, a) r. fst (check_batch (net j) a) = Inr r)
              (enumerate 0 (map fst (units run))) rs"
    by blast
  have "in_df \<noteq> []"
  proof
    assume "in_df = []"
    then have "plan (api_batch_size cfg) in_df = Some ([], 0)"
      by (simp add: plan_def plan_loop.simps)
    then show False using p ne by simp
  qed
  then have "0 < api_batch_size cfg"
    using plan_loop_returns[of "api_batch_size cfg" in_df 0 "int (length in_df)" "[]" 0 "(api_data, c)"] p
    by (simp add: plan_def)
  then have "concat (map snd api_data) = map fst in_df"
    using p by (rule plan_labels)
  then have "concat (map (\<lambda>u. batch_index (fst u)) (units run)) = map fst in_df"
    using bi by simp
  moreover have "index out = concat (map (\<lambda>(k, a). if exhausted (net k) a then [] else batch_index a)
                                 (enumerate 0 (map fst (units run))))"
    using pd_concat_index[OF c] results_index[OF l] by simp
  ultimately show ?thesis by simp
qed

lemma concat_not_exhausted:
  "list_all (\<lambda>(k, a). \<not> exhausted (net k) a) xs \<Longrightarrow>
   concat (map (\<lambda>(k, a). if exhausted (net k) a then [] else batch_index a) xs) =
   concat (map (\<lambda>x. batch_index (snd x)) xs)"
  by (induction xs) auto

lemma map_snd_enumerate': "map (\<lambda>x. g (snd x)) (enumerate k xs) = map g xs"
  by (induction xs arbitrary: k) simp_all

text \<open>
  C1, as amended. Take a run of \<^verbatim>\<open>check_df\<close> (or \<^verbatim>\<open>check_chunk\<close>, the same
  code) that returns a DataFrame. Then every batch was run, the batches' labels one
  after the other are the labels of the input, and the labels of the result are those
  of the batches in order with the batches left out whose ten attempts all met
  ConnectionError: such a batch gives the empty DataFrame and so no row. If no batch is
  exhausted, the labels of the result are exactly the labels of the input, in order,
  and the result has as many rows as the input.
\<close>

theorem aggregated_index_of_returned_run:
  assumes "check_df net cfg in_df = Some run" and "returned run = Inr out"
  shows "index out = concat (map (\<lambda>(k, a). if exhausted (net k) a then [] else batch_index a)
                                 (enumerate 0 (map fst (units run))))
       \<and> concat (map (\<lambda>u. batch_index (fst u)) (units run)) = map fst in_df
       \<and> (list_all (\<lambda>(k, a). \<not> exhausted (net k) a) (enumerate 0 (map fst (units run))) \<longrightarrow>
            index out = map fst in_df \<and> shape0 out = length in_df)"
proof -
  have r: "check_chunk net cfg in_df = Some run"
    using assms(1) by (simp add: check_df_def)
  note c = check_chunk_complete[OF r assms(2)]
  have "index out = map fst in_df \<and> shape0 out = length in_df"
    if "list_all (\<lambda>(k, a). \<not> exhausted (net k) a) (enumerate 0 (map fst (units run)))"
  proof -
    have "index out = concat (map (\<lambda>x. batch_index (snd x)) (enumerate 0 (map fst (units run))))"
      using c concat_not_exhausted[OF that] by simp
    also have "\<dots> = concat (map batch_index (map fst (units run)))"
      by (simp only: map_snd_enumerate')
    also have "\<dots> = map fst in_df"
      using c by (simp add: comp_def)
    finally have "index out = map fst in_df" .
    then show ?thesis by (simp add: shape0_def)
  qed
  then show ?thesis using c by blast
qed

theorem aggregated_index_witness:
  "\<exists>run out.
     check_df (\<lambda>k url body i. Parsed (if k = 0
                 then \<lparr>index = [0, 1], columns = [(''Result'', [''1'', ''1''])]\<rparr>
                 else \<lparr>index = [0], columns = [(''Result'', [''1''])]\<rparr>))
        \<lparr>ini_api_servers = [\<lparr>name = ''A'', root = ''a'', uri_stem = ''a'',
                                multi_thread_mode = False, init_result = ''Working'',
                                online = True\<rparr>],
          api_batch_size = 2, multi_threaded_mode = False, refiner_output_fields = []\<rparr>
        [(10, ''x''), (11, ''y''), (12, ''z'')] = Some run
     \<and> returned run = Inr out \<and> index out = [10, 11, 12] \<and> shape0 out = 3"
proof -
  let ?net = "\<lambda>(k::nat) (url::string) (body::string) (i::nat).
        Parsed (if k = 0 then \<lparr>index = [0::nat, 1], columns = [(''Result'', [''1'', ''1''])]\<rparr>
                else \<lparr>index = [0], columns = [(''Result'', [''1''])]\<rparr>)"
  let ?A = "\<lparr>name = ''A'', root = ''a'', uri_stem = ''a'', multi_thread_mode = False,
             init_result = ''Working'', online = True\<rparr>"
  let ?cfg = "\<lparr>ini_api_servers = [?A], api_batch_size = 2, multi_threaded_mode = False,
               refiner_output_fields = []\<rparr>"
  let ?df = "[(10::nat, ''x''), (11, ''y''), (12, ''z'')]"
  let ?a1 = "\<lparr>api_servers = [?A], api_server_id = 0, out_fields = [], data = ''x'' @ [newline] @ ''y'',
              batch_first_row = ''x'', batch_index = [10, 11]\<rparr>"
  let ?a2 = "\<lparr>api_servers = [?A], api_server_id = 0, out_fields = [], data = ''z'',
              batch_first_row = ''z'', batch_index = [12]\<rparr>"
  have "map_option (\<lambda>r. (case returned r of Inl e \<Rightarrow> False | Inr out \<Rightarrow> True, map fst (units r)))
          (check_df ?net ?cfg ?df) = Some (True, [?a1, ?a2])"
    by code_simp
  then obtain run where run: "check_df ?net ?cfg ?df = Some run"
    and t: "case returned run of Inl e \<Rightarrow> False | Inr out \<Rightarrow> True"
    and u: "map fst (units run) = [?a1, ?a2]"
    unfolding map_option_eq_Some by auto
  obtain out where out: "returned run = Inr out"
    using t by (cases "returned run") auto
  have "list_all (\<lambda>(k, a). \<not> exhausted (?net k) a) (enumerate 0 [?a1, ?a2])"
    by (simp add: exhausted_def list_item_def upt_conv_Cons)
  then have "index out = map fst ?df \<and> shape0 out = length ?df"
    using aggregated_index_of_returned_run[OF run out] u by simp
  then show ?thesis
    using run out by auto
qed

theorem exhausted_batch_drops_rows:
  "\<exists>run out.
     check_df (\<lambda>k url body i. Raises ConnectionError)
        \<lparr>ini_api_servers = [\<lparr>name = ''A'', root = ''a'', uri_stem = ''a'',
                                multi_thread_mode = False, init_result = ''Working'',
                                online = True\<rparr>],
          api_batch_size = 1, multi_threaded_mode = False, refiner_output_fields = []\<rparr>
        [(0, ''x'')] = Some run
     \<and> returned run = Inr out \<and> index out = [] \<and> shape0 out = 0
     \<and> set (index out) \<noteq> set (map fst [(0::nat, ''x'')])
     \<and> shape0 out \<noteq> length [(0::nat, ''x'')]"
proof -
  let ?net = "\<lambda>(k::nat) (url::string) (body::string) (i::nat). Raises ConnectionError"
  let ?cfg = "\<lparr>ini_api_servers = [\<lparr>name = ''A'', root = ''a'', uri_stem = ''a'',
                                multi_thread_mode = False, init_result = ''Working'',
                                online = True\<rparr>],
          api_batch_size = 1, multi_threaded_mode = False, refiner_output_fields = []\<rparr>"
  have "map_option returned (check_df ?net ?cfg [(0, ''x'')]) = Some (Inr \<lparr>index = [], columns = []\<rparr>)"
    by code_simp
  then obtain run where "check_df ?net ?cfg [(0, ''x'')] = Some run"
    and "returned run = Inr \<lparr>index = [], columns = []\<rparr>"
    unfolding map_option_eq_Some by auto
  then show ?thesis
    by (auto simp: shape0_def)
qed

subsection \<open>The empty dataset\<close>

text \<open>
  C7 on the code. For a dataset without rows the planning loop gives no batch, and with
  no batch \<^verbatim>\<open>process_chunk\<close> raises ValueError in either branch: the
  ThreadPoolExecutor refuses \<^verbatim>\<open>max_workers = 0\<close>, and \<^verbatim>\<open>pd.concat\<close> refuses an
  empty list. No DataFrame is returned.
\<close>

theorem empty_dataset_raises:
  "plan (api_batch_size cfg) [] = Some ([], 0)
   \<and> (\<exists>run msg. check_df net cfg [] = Some run \<and> returned run = Inl (ValueError msg)
         \<and> units run = [])"
proof -
  have p: "plan (api_batch_size cfg) [] = Some ([], 0)"
    by (simp add: plan_def plan_loop.simps)
  have a: "assign_outer servers flds [] [] = Some []" for servers flds
    by (subst assign_outer.simps) simp
  have "\<exists>run msg. process_chunk net (ini_api_servers cfg) (multi_threaded_mode cfg) []
                     (refiner_output_fields cfg) = Some run
          \<and> returned run = Inl (ValueError msg) \<and> units run = []"
    by (simp add: process_chunk_def a MAX_THREADS_def pd_concat_def)
  then show ?thesis
    using p by (simp add: check_df_def check_chunk_def)
qed

subsection \<open>The degraded response\<close>

text \<open>
  C2 on the code. The branch for at most two columns fills the columns of the rows
  that the parsed table already has: it makes no row. When the table has as many rows
  as the batch, the call returns them with the sentinel cells under the labels of the
  batch; when it has not, \<^verbatim>\<open>batch.index = self.index\<close> raises ValueError, which
  \<^verbatim>\<open>check_batch\<close> does not catch. So for a batch of two rows and a response that
  parses to the empty table, \<^verbatim>\<open>check_batch\<close> raises after its first POST.
\<close>

theorem degraded_response_row_mismatch_raises:
  "after_parse api \<lparr>index = idx, columns = take 2 cs\<rparr> =
     (if length (batch_index api) = length idx
      then Inr ((fill_sentinels (out_fields api) \<lparr>index = idx, columns = take 2 cs\<rparr>)
                  \<lparr>index := batch_index api\<rparr>)
      else Inl (ValueError ''Length mismatch''))
   \<and> getitem (fill_sentinels flds b) ''Closeness'' = Inr (replicate (shape0 b) ''0'')
   \<and> getitem (fill_sentinels flds b) ''UDPRN'' = Inr (replicate (shape0 b) ''00000000'')
   \<and> getitem (fill_sentinels flds b) ''UPRN'' = Inr (replicate (shape0 b) ''000000000000'')
   \<and> shape0 (fill_sentinels flds b) = shape0 b
   \<and> check_batch (\<lambda>url body i. Parsed empty_frame)
        (ApiCall_init [\<lparr>name = ''A'', root = ''a'', uri_stem = ''a'', multi_thread_mode = False,
                         init_result = ''Working'', online = True\<rparr>]
           0 [] (''x'' @ [newline] @ ''y'', [0, 1]))
      = (Inl (ValueError ''Length mismatch''), [Post ''a'' (''x'' @ [newline] @ ''y'')])"
proof -
  have "shape1 \<lparr>index = idx, columns = take 2 cs\<rparr> \<le> 2"
    by (simp add: shape1_def)
  from after_parse_degraded[OF this, of api]
  have a: "after_parse api \<lparr>index = idx, columns = take 2 cs\<rparr> =
     (if length (batch_index api) = length idx
      then Inr ((fill_sentinels (out_fields api) \<lparr>index = idx, columns = take 2 cs\<rparr>)
                  \<lparr>index := batch_index api\<rparr>)
      else Inl (ValueError ''Length mismatch''))"
    by (simp add: shape0_def)
  have c: "check_batch (\<lambda>url body i. Parsed empty_frame)
        (ApiCall_init [\<lparr>name = ''A'', root = ''a'', uri_stem = ''a'', multi_thread_mode = False,
                         init_result = ''Working'', online = True\<rparr>]
           0 [] (''x'' @ [newline] @ ''y'', [0, 1]))
      = (Inl (ValueError ''Length mismatch''), [Post ''a'' (''x'' @ [newline] @ ''y'')])"
    by code_simp
  show ?thesis
    using a c getitem_fill_sentinels[of flds b] by simp
qed

subsection \<open>The missing field\<close>

















subsection \<open>Building the pool\<close>

lemma settings_error:
  "ApiSetupError_init [EStr ''API Settings Error'', EStr res] =
     ApiSetupError ''API Settings Error'' [Lit res]"
  by (simp add: ApiSetupError_init_def)

lemma check_api_events: "snd (check_api web nm stem) = [Get (call_url stem)]"
  by (simp add: check_api_def Let_def)

lemma ApiServer_init_ok:
  assumes "fst (ApiServer_init web nm host licence password rt multi flds frmt) = Inr s"
  shows "init_result s = ''Working'' \<and> online s \<and> name s = nm
       \<and> uri_stem s = ApiServer_uri_stem (ApiServer_root rt host licence password) flds frmt
       \<and> fst (check_api web nm (uri_stem s)) = Inr ''Working''"
proof -
  let ?stem = "ApiServer_uri_stem (ApiServer_root rt host licence password) flds frmt"
  obtain x ev where c: "check_api web nm ?stem = (x, ev)"
    by (cases "check_api web nm ?stem")
  show ?thesis
    using assms c
    by (cases x) (auto simp: ApiServer_init_def Let_def split: if_splits)
qed

lemma ApiServer_init_not_working:
  assumes "fst (check_api web nm (ApiServer_uri_stem (ApiServer_root rt host licence password)
                                   flds frmt)) = Inr res"
    and "res \<noteq> ''Working''"
  shows "ApiServer_init web nm host licence password rt multi flds frmt =
           (Inl (ApiSetupError ''API Settings Error'' [Lit res]),
            [Get (call_url (ApiServer_uri_stem (ApiServer_root rt host licence password)
                             flds frmt))])"
proof -
  let ?stem = "ApiServer_uri_stem (ApiServer_root rt host licence password) flds frmt"
  have "check_api web nm ?stem = (Inr res, [Get (call_url ?stem)])"
    using assms(1) check_api_events[of web nm ?stem]
    by (cases "check_api web nm ?stem") simp
  then show ?thesis
    using assms(2) by (simp add: ApiServer_init_def Let_def settings_error)
qed

lemma construct_online:
  "fst (construct web multi flds si) = Inr s \<Longrightarrow> online s \<and> init_result s = ''Working''"
  using ApiServer_init_ok
  by (auto simp: construct_def split: sum.splits)

lemma get_apis_loop_ok:
  "fst (get_apis_loop web multi flds infos pool ev) = Inr pool' \<Longrightarrow>
   \<exists>new. pool' = pool @ new
       \<and> list_all2 (\<lambda>si s. fst (construct web multi flds si) = Inr s) infos new"
proof (induction infos arbitrary: pool ev)
  case Nil
  then show ?case by simp
next
  case (Cons si rest)
  obtain x ev' where c: "construct web multi flds si = (x, ev')"
    by (cases "construct web multi flds si")
  show ?case
  proof (cases x)
    case (Inl e)
    then show ?thesis using Cons.prems c by simp
  next
    case (Inr s)
    then have on: "online s"
      using construct_online[of web multi flds si s] c by simp
    then have "fst (get_apis_loop web multi flds rest (pool @ [s]) (ev @ ev')) = Inr pool'"
      using Cons.prems c Inr by simp
    from Cons.IH[OF this] obtain new where
      "pool' = (pool @ [s]) @ new"
      "list_all2 (\<lambda>si s. fst (construct web multi flds si) = Inr s) rest new"
      by blast
    then have "pool' = pool @ (s # new)
        \<and> list_all2 (\<lambda>si s. fst (construct web multi flds si) = Inr s) (si # rest) (s # new)"
      using c Inr by simp
    then show ?thesis by blast
  qed
qed

lemma get_apis_loop_fatal:
  "list_all (\<lambda>x. \<exists>s. fst (construct web multi flds x) = Inr s) pre \<Longrightarrow>
   fst (construct web multi flds si) = Inl e \<Longrightarrow>
   fst (get_apis_loop web multi flds (pre @ si # post) pool ev) = Inl e"
proof (induction pre arbitrary: pool ev)
  case Nil
  then show ?case
    by (cases "construct web multi flds si") simp
next
  case (Cons x pre)
  then obtain s where s: "fst (construct web multi flds x) = Inr s"
    by auto
  then have on: "online s"
    using construct_online by blast
  obtain ev' where c: "construct web multi flds x = (Inr s, ev')"
    using s by (cases "construct web multi flds x") simp
  have "fst (get_apis_loop web multi flds (pre @ si # post) (pool @ [s]) (ev @ ev')) = Inl e"
    using Cons by (intro Cons.IH) simp_all
  then show ?case
    using c on by simp
qed

lemma get_apis_fst:
  "fst (get_apis web infos flds) =
   fst (get_apis_loop web (1 < length infos) flds infos [] [])"
  by (cases "get_apis_loop web (1 < length infos) flds infos [] []"; 
      cases "fst (get_apis_loop web (1 < length infos) flds infos [] [])")
     (simp_all add: get_apis_def Let_def)

text \<open>
  C4, as amended. The constructor of ApiServer raises when the startup check gives
  anything but \<^verbatim>\<open>'Working'\<close>: the exception is ApiSetupError with the error
  \<^verbatim>\<open>'API Settings Error'\<close> and the check's message as its description, and nothing
  but the GET of the check has happened (no log entry). A server object exists only
  for a check that gave \<^verbatim>\<open>'Working'\<close>. \<^verbatim>\<open>get_apis\<close> does not catch the
  exception: it returns a pool only if every entry of the server list verified, and the
  pool then holds one server per entry, in order; at the first entry whose constructor
  raises, \<^verbatim>\<open>get_apis\<close> raises that exception, whatever the entries before and after.
\<close>

theorem unverified_endpoint_is_fatal:
  "(fst (ApiServer_init web nm host licence password rt multi flds frmt) = Inr s \<longrightarrow>
      init_result s = ''Working'' \<and> online s
      \<and> fst (check_api web nm (uri_stem s)) = Inr ''Working'')
   \<and> (fst (check_api web nm (ApiServer_uri_stem (ApiServer_root rt host licence password)
                                flds frmt)) = Inr res \<and> res \<noteq> ''Working'' \<longrightarrow>
      ApiServer_init web nm host licence password rt multi flds frmt =
        (Inl (ApiSetupError ''API Settings Error'' [Lit res]),
         [Get (call_url (ApiServer_uri_stem (ApiServer_root rt host licence password)
                          flds frmt))]))
   \<and> (fst (get_apis web infos flds) = Inr pool \<longrightarrow>
      list_all2 (\<lambda>si s. fst (construct web (1 < length infos) flds si) = Inr s) infos pool
      \<and> length pool = length infos
      \<and> list_all (\<lambda>s. init_result s = ''Working'') pool)
   \<and> (infos = pre @ si # post
      \<and> list_all (\<lambda>x. \<exists>s. fst (construct web (1 < length infos) flds x) = Inr s) pre
      \<and> fst (construct web (1 < length infos) flds si) = Inl e \<longrightarrow>
      fst (get_apis web infos flds) = Inl e)"
proof (intro conjI impI)
  assume "fst (ApiServer_init web nm host licence password rt multi flds frmt) = Inr s"
  from ApiServer_init_ok[OF this]
  show "init_result s = ''Working''" "online s"
    "fst (check_api web nm (uri_stem s)) = Inr ''Working''"
    by blast+
next
  assume "fst (check_api web nm (ApiServer_uri_stem (ApiServer_root rt host licence password)
                                flds frmt)) = Inr res \<and> res \<noteq> ''Working''"
  then show "ApiServer_init web nm host licence password rt multi flds frmt =
        (Inl (ApiSetupError ''API Settings Error'' [Lit res]),
         [Get (call_url (ApiServer_uri_stem (ApiServer_root rt host licence password)
                          flds frmt))])"
    using ApiServer_init_not_working by blast
next
  assume "fst (get_apis web infos flds) = Inr pool"
  then have "fst (get_apis_loop web (1 < length infos) flds infos [] []) = Inr pool"
    by (simp add: get_apis_fst)
  from get_apis_loop_ok[OF this]
  show l: "list_all2 (\<lambda>si s. fst (construct web (1 < length infos) flds si) = Inr s) infos pool"
    by simp
  then show "length pool = length infos"
    by (simp add: list_all2_lengthD)
  have "init_result s = ''Working''" if "s \<in> set pool" for s
  proof -
    from that obtain i where i: "i < length pool" "pool ! i = s"
      by (auto simp: in_set_conv_nth)
    then have "fst (construct web (1 < length infos) flds (infos ! i)) = Inr s"
      using l by (auto simp: list_all2_conv_all_nth)
    then show ?thesis
      using construct_online by blast
  qed
  then show "list_all (\<lambda>s. init_result s = ''Working'') pool"
    by (simp add: list_all_iff)
next
  assume h: "infos = pre @ si # post
      \<and> list_all (\<lambda>x. \<exists>s. fst (construct web (1 < length infos) flds x) = Inr s) pre
      \<and> fst (construct web (1 < length infos) flds si) = Inl e"
  then have i: "pre @ si # post = infos"
    and p: "list_all (\<lambda>x. \<exists>s. fst (construct web (1 < length infos) flds x) = Inr s) pre"
    and q: "fst (construct web (1 < length infos) flds si) = Inl e"
    by blast+
  have "fst (get_apis_loop web (1 < length infos) flds (pre @ si # post) [] []) = Inl e"
    using p q by (rule get_apis_loop_fatal)
  then have "fst (get_apis_loop web (1 < length infos) flds infos [] []) = Inl e"
    by (simp only: i)
  then show "fst (get_apis web infos flds) = Inl e"
    by (simp only: get_apis_fst)
qed

theorem unverified_endpoint_witness:
  "fst (get_apis (\<lambda>url. if take 9 url = ''http://a/'' then JsonDict [(''ResultCode'', JStr ''200'')]
                         else JsonDict [(''Result'', JNum (- 7))])
          [[(''name'', ''A''), (''host'', ''a''), (''licence'', ''1''), (''password'', ''p'')],
           [(''name'', ''B''), (''host'', ''b''), (''licence'', ''2''), (''password'', ''q'')]]
          (Some [''UDPRN'']))
     = Inl (ApiSetupError ''API Settings Error''
              [Lit ''B Authentication Error - Check licence (serial) and password''])
   \<and> (\<exists>pool. fst (get_apis (\<lambda>url. if take 9 url = ''http://a/''
                                     then JsonDict [(''ResultCode'', JStr ''200'')]
                                     else JsonDict [(''Result'', JNum (- 7))])
                     [[(''name'', ''A''), (''host'', ''a''), (''licence'', ''1''),
                       (''password'', ''p'')]]
                     (Some [''UDPRN''])) = Inr pool
          \<and> length pool = 1 \<and> list_all (\<lambda>s. init_result s = ''Working'') pool)
   \<and> ApiServer_init (\<lambda>url. if take 9 url = ''http://a/''
                                then JsonDict [(''ResultCode'', JStr ''200'')]
                                else JsonDict [(''Result'', JNum (- 7))])
        ''B'' ''b'' ''2'' ''q'' root_template True (Some [''UDPRN'']) ''json''
       = (Inl (ApiSetupError ''API Settings Error''
                 [Lit ''B Authentication Error - Check licence (serial) and password'']),
          [Get (''http://b/v1/refiner/GBR/clean?serial=2&password=q&format=json&fields=UDPRN&'' @
                check_str)])
   \<and> fst (check_api (\<lambda>url. if take 9 url = ''http://a/''
                                then JsonDict [(''ResultCode'', JStr ''200'')]
                                else JsonDict [(''Result'', JNum (- 7))])
             ''A'' ''http://a/v1/refiner/GBR/clean?serial=1&password=p&format=json&fields=UDPRN'')
       = Inr ''Working''"
proof -
  let ?web = "\<lambda>url. if take 9 url = ''http://a/'' then JsonDict [(''ResultCode'', JStr ''200'')]
                    else JsonDict [(''Result'', JNum (- 7))]"
  let ?A = "[(''name'', ''A''), (''host'', ''a''), (''licence'', ''1''), (''password'', ''p'')]"
  let ?B = "[(''name'', ''B''), (''host'', ''b''), (''licence'', ''2''), (''password'', ''q'')]"
  let ?flds = "Some [''UDPRN'']"
  let ?e = "ApiSetupError ''API Settings Error''
              [Lit ''B Authentication Error - Check licence (serial) and password'']"
  let ?srv = "\<lparr>name = ''A'', root = ''http://a/v1/refiner/GBR/clean?serial=1&password=p'',
          uri_stem = ''http://a/v1/refiner/GBR/clean?serial=1&password=p&format=json&fields=UDPRN'',
          multi_thread_mode = False, init_result = ''Working'', online = True\<rparr>"
  note T2 = unverified_endpoint_is_fatal[where web="?web" and infos="[?A, ?B]" and flds="?flds"
      and pre="[?A]" and si="?B" and post="[]" and e="?e"]
  note T1 = unverified_endpoint_is_fatal[where web="?web" and infos="[?A]" and flds="?flds"
      and pool="[?srv]"]
  have a: "case fst (construct ?web (1 < length [?A, ?B]) ?flds ?A) of
             Inl e \<Rightarrow> False | Inr s \<Rightarrow> True"
    by code_simp
  have b: "fst (construct ?web (1 < length [?A, ?B]) ?flds ?B) = Inl ?e"
    by code_simp
  have h2: "[?A, ?B] = [?A] @ ?B # []
      \<and> list_all (\<lambda>x. \<exists>s. fst (construct ?web (1 < length [?A, ?B]) ?flds x) = Inr s) [?A]
      \<and> fst (construct ?web (1 < length [?A, ?B]) ?flds ?B) = Inl ?e"
    using a b by (auto split: sum.splits)
  have 2: "fst (get_apis ?web [?A, ?B] ?flds) = Inl ?e"
    by (rule T2[THEN conjunct2, THEN conjunct2, THEN conjunct2, THEN mp, OF h2])
  have h1: "fst (get_apis ?web [?A] ?flds) = Inr [?srv]"
    by code_simp
  have "list_all2 (\<lambda>si s. fst (construct ?web (1 < length [?A]) ?flds si) = Inr s) [?A] [?srv]
      \<and> length [?srv] = length [?A]
      \<and> list_all (\<lambda>s. init_result s = ''Working'') [?srv]"
    by (rule T1[THEN conjunct2, THEN conjunct2, THEN conjunct1, THEN mp, OF h1])
  then have 1: "\<exists>pool. fst (get_apis ?web [?A] ?flds) = Inr pool
          \<and> length pool = 1 \<and> list_all (\<lambda>s. init_result s = ''Working'') pool"
    using h1 by (intro exI[of _ "[?srv]"]) simp
  note TB = unverified_endpoint_is_fatal[where web="?web" and nm="''B''" and host="''b''"
      and licence="''2''" and password="''q''" and rt=root_template and multi=True
      and flds="?flds" and frmt="''json''"
      and res="''B Authentication Error - Check licence (serial) and password''",
      THEN conjunct2, THEN conjunct1, THEN mp]
  have hB: "fst (check_api ?web ''B''
                  (ApiServer_uri_stem (ApiServer_root root_template ''b'' ''2'' ''q'') ?flds ''json''))
              = Inr ''B Authentication Error - Check licence (serial) and password''
      \<and> ''B Authentication Error - Check licence (serial) and password'' \<noteq> ''Working''"
    by code_simp
  have "ApiServer_init ?web ''B'' ''b'' ''2'' ''q'' root_template True ?flds ''json'' =
        (Inl ?e, [Get (call_url (ApiServer_uri_stem (ApiServer_root root_template ''b'' ''2'' ''q'')
                                   ?flds ''json''))])"
    by (rule TB[OF hB])
  moreover have "call_url (ApiServer_uri_stem (ApiServer_root root_template ''b'' ''2'' ''q'')
                             ?flds ''json'') =
        ''http://b/v1/refiner/GBR/clean?serial=2&password=q&format=json&fields=UDPRN&'' @ check_str"
    by code_simp
  ultimately have 3: "ApiServer_init ?web ''B'' ''b'' ''2'' ''q'' root_template True ?flds ''json'' =
        (Inl ?e, [Get (''http://b/v1/refiner/GBR/clean?serial=2&password=q&format=json&fields=UDPRN&'' @
                       check_str)])"
    by simp
  note TA = unverified_endpoint_is_fatal[where web="?web" and nm="''A''" and host="''a''"
      and licence="''1''" and password="''p''" and rt=root_template and multi=False
      and flds="?flds" and frmt="''json''" and s="?srv", THEN conjunct1, THEN mp]
  have hA: "fst (ApiServer_init ?web ''A'' ''a'' ''1'' ''p'' root_template False ?flds ''json'')
              = Inr ?srv"
    by code_simp
  have "init_result ?srv = ''Working'' \<and> online ?srv
      \<and> fst (check_api ?web ''A'' (uri_stem ?srv)) = Inr ''Working''"
    by (rule TA[OF hA])
  then have 4: "fst (check_api ?web ''A''
        ''http://a/v1/refiner/GBR/clean?serial=1&password=p&format=json&fields=UDPRN'') = Inr ''Working''"
    by simp
  show ?thesis
    using 1 2 3 4 by (intro conjI)
qed

theorem unverified_endpoint_aborts_pool:
  "get_apis (\<lambda>url. if take 9 url = ''http://a/'' then JsonDict [(''ResultCode'', JStr ''200'')]
                    else ConnectTimeout)
     [[(''name'', ''A''), (''host'', ''a''), (''licence'', ''1''), (''password'', ''p'')],
      [(''name'', ''B''), (''host'', ''b''), (''licence'', ''2''), (''password'', ''q'')]]
     (Some [''UDPRN''])
   = (Inl (ApiSetupError ''API Settings Error''
             [Lit ''B Not Responding - Check the host IP address'']),
      [Get (''http://a/v1/refiner/GBR/clean?serial=1&password=p&format=json&fields=UDPRN&'' @ check_str),
       Log [LStr ''API Server initialised'', LStr ''A'', LStr ''Running in Multi-threaded Mode''],
       Get (''http://b/v1/refiner/GBR/clean?serial=2&password=q&format=json&fields=UDPRN&'' @ check_str)])"
  by code_simp

subsection \<open>Loops that do not end\<close>

text \<open>
  With a batch size that is zero or negative, the planning loop never gets past the
  rows of a dataset that has any, so planning does not return.
\<close>

theorem nonpositive_batch_size_diverges:
  "plan (- int n) (r # rows) = None"
proof (cases "plan (- int n) (r # rows)")
  case None
  then show ?thesis .
next
  case (Some y)
  then have "plan_loop (- int n) (r # rows) 0 (int (length (r # rows))) [] 0 = Some y"
    by (simp add: plan_def)
  from plan_loop_returns[OF this] show ?thesis by simp
qed

subsection \<open>The immutable containers\<close>

text \<open>
  Each of the seven methods that \<^verbatim>\<open>ImmutableDict\<close> defines and each of the eight that
  \<^verbatim>\<open>ImmutableList\<close> defines raises its TypeError, whatever the arguments, and leaves
  the contents of the container as they were.
\<close>

theorem overridden_methods_raise:
  "ImmutableDict (Dict_setitem k v) d =
     (Inl (TypeError ''This dictionary is immutable and cannot be changed.''), d)
   \<and> ImmutableDict (Dict_delitem k) d =
     (Inl (TypeError ''This dictionary is immutable and cannot be changed.''), d)
   \<and> ImmutableDict Dict_clear d =
     (Inl (TypeError ''This dictionary is immutable and cannot be cleared.''), d)
   \<and> ImmutableDict (Dict_update other) d =
     (Inl (TypeError ''This dictionary is immutable and cannot be updated.''), d)
   \<and> ImmutableDict (Dict_pop k dflt) d =
     (Inl (TypeError ''This dictionary is immutable and cannot be changed.''), d)
   \<and> ImmutableDict Dict_popitem d =
     (Inl (TypeError ''This dictionary is immutable and cannot be changed.''), d)
   \<and> ImmutableDict (Dict_setdefault k v) d =
     (Inl (TypeError ''This dictionary is immutable and cannot be changed.''), d)
   \<and> ImmutableList (List_setitem i x) xs =
     (Inl (TypeError ''This list is immutable and cannot be changed.''), xs)
   \<and> ImmutableList (List_delitem i) xs =
     (Inl (TypeError ''This list is immutable and cannot be deleted.''), xs)
   \<and> ImmutableList (List_append x) xs =
     (Inl (TypeError ''This list is immutable and cannot be changed.''), xs)
   \<and> ImmutableList (List_extend vs) xs =
     (Inl (TypeError ''This list is immutable and cannot be extended.''), xs)
   \<and> ImmutableList (List_insert i x) xs =
     (Inl (TypeError ''This list is immutable and cannot be changed.''), xs)
   \<and> ImmutableList (List_remove x) xs =
     (Inl (TypeError ''This list is immutable and cannot be changed.''), xs)
   \<and> ImmutableList (List_pop i) xs =
     (Inl (TypeError ''This list is immutable and cannot be changed.''), xs)
   \<and> ImmutableList List_clear xs =
     (Inl (TypeError ''This list is immutable and cannot be cleared.''), xs)"
proof -
  have dict: "ImmutableDict_body c = Some e \<Longrightarrow> ImmutableDict c d = (Inl e, d)"
    for c :: "'a dict_call" and e
    by (simp add: ImmutableDict_def)
  have list: "ImmutableList_body c = Some e \<Longrightarrow> ImmutableList c xs = (Inl e, xs)"
    for c :: "'b list_call" and e
    by (simp add: ImmutableList_def)
  show ?thesis
    by (intro conjI dict list) simp_all
qed

text \<open>
  C10. The two classes leave out the in-place operators and, for the list,
  \<^verbatim>\<open>reverse\<close> and \<^verbatim>\<open>sort\<close>. A call of one of these on the object runs the inherited
  method: it raises nothing and changes the contents. So the list that the property
  \<^verbatim>\<open>api_servers\<close> returns does change after construction: on a Config object with
  the servers \<open>A\<close> and \<open>B\<close>, \<^verbatim>\<open>ini.api_servers.__iadd__([A])\<close> leaves \<open>[A, B, A]\<close>,
  \<^verbatim>\<open>ini.api_servers.__imul__(0)\<close> leaves the empty list and
  \<^verbatim>\<open>ini.api_servers.reverse()\<close> leaves \<open>[B, A]\<close>. A method taken from the built-in
  class, as in \<^verbatim>\<open>list.append(ini.api_servers, A)\<close>, changes the list too.
\<close>

theorem inherited_mutators_change_containers:
  "ImmutableList (List_iadd vs) xs = (Inr (), xs @ vs)
   \<and> ImmutableList (List_imul n) xs = (Inr (), concat (replicate (nat n) xs))
   \<and> ImmutableList List_reverse xs = (Inr (), rev xs)
   \<and> ImmutableList (List_sort key) xs = (Inr (), sort_key key xs)
   \<and> ImmutableDict (Dict_ior other) d = (Inr (), dict_merge other d)
   \<and> (let A = \<lparr>name = ''A'', root = ''a'', uri_stem = ''a'', multi_thread_mode = True,
                 init_result = ''Working'', online = True\<rparr>;
           B = \<lparr>name = ''B'', root = ''b'', uri_stem = ''b'', multi_thread_mode = True,
                 init_result = ''Working'', online = True\<rparr>;
           ini = \<lparr>APP_SETTINGS = [(''ApiBatchSize'', 50 :: int)], API_SERVERS = [A, B]\<rparr>
       in Config_api_servers ini = [A, B]
          \<and> fst (attempt (OnServers (List_iadd [A])) ini) = Inr ()
          \<and> Config_api_servers (snd (attempt (OnServers (List_iadd [A])) ini)) = [A, B, A]
          \<and> fst (attempt (OnServers (List_imul 0)) ini) = Inr ()
          \<and> Config_api_servers (snd (attempt (OnServers (List_imul 0)) ini)) = []
          \<and> fst (attempt (OnServers List_reverse) ini) = Inr ()
          \<and> Config_api_servers (snd (attempt (OnServers List_reverse) ini)) = [B, A]
          \<and> fst (attempt (BuiltinOnServers (List_append A)) ini) = Inr ()
          \<and> Config_api_servers (snd (attempt (BuiltinOnServers (List_append A)) ini)) = [A, B, A]
          \<and> fst (attempt (OnSettings (Dict_ior [(''ApiBatchSize'', 0)])) ini) = Inr ()
          \<and> APP_SETTINGS (snd (attempt (OnSettings (Dict_ior [(''ApiBatchSize'', 0)])) ini))
              = [(''ApiBatchSize'', 0)])"
proof (intro conjI)
  show "ImmutableList (List_iadd vs) xs = (Inr (), xs @ vs)"
    by (simp add: ImmutableList_def)
  show "ImmutableList (List_imul n) xs = (Inr (), concat (replicate (nat n) xs))"
    by (simp add: ImmutableList_def)
  show "ImmutableList List_reverse xs = (Inr (), rev xs)"
    by (simp add: ImmutableList_def)
  show "ImmutableList (List_sort key) xs = (Inr (), sort_key key xs)"
    by (simp add: ImmutableList_def)
  show "ImmutableDict (Dict_ior other) d = (Inr (), dict_merge other d)"
    by (simp add: ImmutableDict_def)
  show "let A = \<lparr>name = ''A'', root = ''a'', uri_stem = ''a'', multi_thread_mode = True,
                 init_result = ''Working'', online = True\<rparr>;
           B = \<lparr>name = ''B'', root = ''b'', uri_stem = ''b'', multi_thread_mode = True,
                 init_result = ''Working'', online = True\<rparr>;
           ini = \<lparr>APP_SETTINGS = [(''ApiBatchSize'', 50 :: int)], API_SERVERS = [A, B]\<rparr>
       in Config_api_servers ini = [A, B]
          \<and> fst (attempt (OnServers (List_iadd [A])) ini) = Inr ()
          \<and> Config_api_servers (snd (attempt (OnServers (List_iadd [A])) ini)) = [A, B, A]
          \<and> fst (attempt (OnServers (List_imul 0)) ini) = Inr ()
          \<and> Config_api_servers (snd (attempt (OnServers (List_imul 0)) ini)) = []
          \<and> fst (attempt (OnServers List_reverse) ini) = Inr ()
          \<and> Config_api_servers (snd (attempt (OnServers List_reverse) ini)) = [B, A]
          \<and> fst (attempt (BuiltinOnServers (List_append A)) ini) = Inr ()
          \<and> Config_api_servers (snd (attempt (BuiltinOnServers (List_append A)) ini)) = [A, B, A]
          \<and> fst (attempt (OnSettings (Dict_ior [(''ApiBatchSize'', 0)])) ini) = Inr ()
          \<and> APP_SETTINGS (snd (attempt (OnSettings (Dict_ior [(''ApiBatchSize'', 0)])) ini))
              = [(''ApiBatchSize'', 0)]"
    by (simp add: Let_def ImmutableList_def ImmutableDict_def Config_api_servers_def dict_merge_def)
qed

subsection \<open>What a run of the dispatcher is\<close>

lemma executor_map_spec:
  "executor_map net k ps =
     (if length (takeWhile (\<lambda>r. \<not> isl (fst r)) (map (\<lambda>(j, a). check_batch (net j) a) (enumerate k ps)))
           < length ps
      then Inl (projl (fst (map (\<lambda>(j, a). check_batch (net j) a) (enumerate k ps) !
             length (takeWhile (\<lambda>r. \<not> isl (fst r))
                       (map (\<lambda>(j, a). check_batch (net j) a) (enumerate k ps))))))
      else Inr (map (\<lambda>r. projr (fst r)) (map (\<lambda>(j, a). check_batch (net j) a) (enumerate k ps))),
      take (Suc (length (takeWhile (\<lambda>r. \<not> isl (fst r))
                          (map (\<lambda>(j, a). check_batch (net j) a) (enumerate k ps)))))
           (zip ps (map snd (map (\<lambda>(j, a). check_batch (net j) a) (enumerate k ps)))))"
proof (induction ps arbitrary: k)
  case Nil
  then show ?case by simp
next
  case (Cons a ps)
  obtain x ev where c: "check_batch (net k) a = (x, ev)" by (cases "check_batch (net k) a")
  show ?case
  proof (cases x)
    case (Inl e)
    then show ?thesis using c by simp
  next
    case (Inr r)
    show ?thesis
      using c Inr by (simp add: Cons.IH[of "Suc k"])
  qed
qed

lemma serial_loop_executor:
  "serial_loop net servers flds k bl rs us =
     (case executor_map net k (map (ApiCall_init servers 0 flds) bl) of
        (Inl e, vs) \<Rightarrow> (Inl e, us @ vs)
      | (Inr rs', vs) \<Rightarrow> (Inr (rs @ rs'), us @ vs))"
proof (induction bl arbitrary: k rs us)
  case Nil
  then show ?case by simp
next
  case (Cons b bl)
  obtain x ev where c: "check_batch (net k) (ApiCall_init servers 0 flds b) = (x, ev)"
    by (cases "check_batch (net k) (ApiCall_init servers 0 flds b)")
  show ?case
  proof (cases x)
    case (Inl e)
    then show ?thesis using c by simp
  next
    case (Inr r)
    obtain y vs where e: "executor_map net (Suc k) (map (ApiCall_init servers 0 flds) bl) = (y, vs)"
      by (cases "executor_map net (Suc k) (map (ApiCall_init servers 0 flds) bl)")
    show ?thesis
      using c Inr e by (cases y) (simp_all add: Cons.IH)
  qed
qed

lemma loop_extends:
  assumes srv: "list_item (api_servers api) (api_server_id api) = Inr srv"
  shows "n = 10 - j \<Longrightarrow> \<exists>more. snd (check_batch_loop ep api j timer res ev) = ev @ more"
proof (induction n arbitrary: j timer ev)
  case 0
  then have "\<not> j < 10" by simp
  then show ?case by (subst check_batch_loop.simps) simp
next
  case (Suc n)
  then have j: "j < 10" by simp
  obtain x evs where c: "call_api ep api j = (x, api, Post (uri_stem srv) (data api) # evs)"
    using call_api_cases[OF srv, of ep j] by blast
  show ?case
  proof (cases x)
    case (Inr r)
    then show ?thesis
      using j c by (subst check_batch_loop.simps) (simp add: loop_done)
  next
    case (Inl err)
    show ?thesis
    proof (cases "err = ConnectionError")
      case False
      then show ?thesis
        using j c Inl by (subst check_batch_loop.simps) simp
    next
      case True
      obtain more where "snd (check_batch_loop ep api (Suc j) (timer + sleep_timer_increment) res
            (ev @ (Post (uri_stem srv) (data api) # evs) @
               [Log [LStr ''Call Failed - ConnectionError'', LInt (int j + 1)], Sleep timer])) =
          (ev @ (Post (uri_stem srv) (data api) # evs) @
               [Log [LStr ''Call Failed - ConnectionError'', LInt (int j + 1)], Sleep timer]) @ more"
      proof -
        have "n = 10 - Suc j" using Suc.prems by simp
        from Suc.IH[OF this] show ?thesis using that by blast
      qed
      then show ?thesis
        using j c Inl True by (subst check_batch_loop.simps) simp
    qed
  qed
qed

lemma check_batch_first_post:
  assumes srv: "list_item (api_servers api) (api_server_id api) = Inr srv"
  shows "\<exists>more. snd (check_batch ep api) = Post (uri_stem srv) (data api) # more"
proof -
  obtain x evs where c: "call_api ep api 0 = (x, api, Post (uri_stem srv) (data api) # evs)"
    using call_api_cases[OF srv, of ep 0] by blast
  have l: "check_batch ep api = check_batch_loop ep api 0 sleep_timer empty_frame []"
    using srv by (simp add: check_batch_def)
  show ?thesis
  proof (cases x)
    case (Inr r)
    then show ?thesis
      unfolding l using c by (subst check_batch_loop.simps) (simp add: loop_done)
  next
    case (Inl err)
    show ?thesis
    proof (cases "err = ConnectionError")
      case False
      then show ?thesis
        unfolding l using c Inl by (subst check_batch_loop.simps) simp
    next
      case True
      obtain more where "snd (check_batch_loop ep api (Suc 0) (sleep_timer + sleep_timer_increment)
            empty_frame
            ((Post (uri_stem srv) (data api) # evs) @
               [Log [LStr ''Call Failed - ConnectionError'', LInt 1], Sleep sleep_timer])) =
          ((Post (uri_stem srv) (data api) # evs) @
               [Log [LStr ''Call Failed - ConnectionError'', LInt 1], Sleep sleep_timer]) @ more"
        using loop_extends[OF srv refl] by blast
      then show ?thesis
        unfolding l using c Inl True by (subst check_batch_loop.simps) simp
    qed
  qed
qed

lemma check_batch_posts_to:
  assumes srv: "list_item (api_servers api) (api_server_id api) = Inr srv"
  shows "\<exists>more. snd (check_batch ep api) = Post (uri_stem srv) (data api) # more
           \<and> set (targets (snd (check_batch ep api))) = {uri_stem srv}"
proof -
  obtain more where m: "snd (check_batch ep api) = Post (uri_stem srv) (data api) # more"
    using check_batch_first_post[OF srv] by blast
  have "uri_stem srv \<in> set (targets (snd (check_batch ep api)))"
    unfolding m by (simp add: targets_def)
  then have "set (targets (snd (check_batch ep api))) = {uri_stem srv}"
    using check_batch_targets[OF srv, of ep] by blast
  then show ?thesis using m by blast
qed

lemma round_robin_server:
  assumes "servers \<noteq> []"
  shows "list_item (api_servers (ApiCall_init servers (i mod length servers) flds b))
           (api_server_id (ApiCall_init servers (i mod length servers) flds b)) =
         Inr (servers ! (i mod length servers))"
  using assms by (simp add: ApiCall_init_def list_item_def)

lemma first_server:
  assumes "servers \<noteq> []"
  shows "list_item (api_servers (ApiCall_init servers 0 flds b))
           (api_server_id (ApiCall_init servers 0 flds b)) = Inr (servers ! 0)"
  using assms by (simp add: ApiCall_init_def list_item_def)

lemma data_ApiCall_init [simp]: "data (ApiCall_init servers i flds b) = fst b"
  by (simp add: ApiCall_init_def)

lemma enumerate_map_snd:
  "enumerate k (map f xs) = map (\<lambda>(i, x). (i, f x)) (enumerate k xs)"
  by (induction xs arbitrary: k) simp_all

text \<open>
  The dispatcher for a pool that is not empty. If the pool has more than one server or
  the multi-thread flag is set, batch \<open>i\<close> (from 0) becomes the call for server
  \<open>i mod K\<close>, \<open>K\<close> the pool size, the calls standing in batch order; the executor is
  asked for \<open>min(batchCount, 30)\<close> workers; unit \<open>k\<close> is call \<open>k\<close> with the events of its
  \<^verbatim>\<open>check_batch\<close>; the units whose outcome reaches the caller are those before the
  first that raised, and that one, so all of them when none raised; the run raises the
  exception of that unit, or returns the concatenation of all results; with no batch the
  executor refuses zero workers. If the pool has exactly one server and the flag is not
  set, there is no executor, every call is for server 0, and the units run one after
  the other in planning order up to and including the first that raised. In both
  branches the events of the unit for batch \<open>i\<close> begin with a POST of that batch's
  payload to the URI of its server, and all its POSTs go there.
\<close>

theorem dispatch_round_robin_or_serial:
  "(servers \<noteq> [] \<and> (1 < length servers \<or> multi) \<longrightarrow>
      (let calls = map (\<lambda>(i, b). ApiCall_init servers (i mod length servers) flds b) (enumerate 0 bl);
           out = map (\<lambda>(k, a). check_batch (net k) a) (enumerate 0 calls);
           n = length (takeWhile (\<lambda>r. \<not> isl (fst r)) out)
       in assign_outer servers flds bl [] = Some calls
          \<and> process_chunk net servers multi bl flds =
              Some \<lparr>returned =
                      (if bl = [] then Inl (ValueError ''max_workers must be greater than 0'')
                       else if n < length bl then Inl (projl (fst (out ! n)))
                       else pd_concat (map (\<lambda>r. projr (fst r)) out)),
                    units = take (Suc n) (zip calls (map snd out)),
                    max_workers = Some (min (int (length bl)) 30)\<rparr>
          \<and> list_all2 (\<lambda>(i, b) r.
                 (\<exists>more. snd r = Post (uri_stem (servers ! (i mod length servers))) (fst b) # more)
                 \<and> set (targets (snd r)) = {uri_stem (servers ! (i mod length servers))})
               (enumerate 0 bl) out))
   \<and> (length servers = 1 \<and> \<not> multi \<longrightarrow>
      (let calls = map (ApiCall_init servers 0 flds) bl;
           out = map (\<lambda>(k, a). check_batch (net k) a) (enumerate 0 calls);
           n = length (takeWhile (\<lambda>r. \<not> isl (fst r)) out)
       in process_chunk net servers multi bl flds =
              Some \<lparr>returned =
                      (if n < length bl then Inl (projl (fst (out ! n)))
                       else pd_concat (map (\<lambda>r. projr (fst r)) out)),
                    units = take (Suc n) (zip calls (map snd out)),
                    max_workers = None\<rparr>
          \<and> list_all2 (\<lambda>b r.
                 (\<exists>more. snd r = Post (uri_stem (servers ! 0)) (fst b) # more)
                 \<and> set (targets (snd r)) = {uri_stem (servers ! 0)})
               bl out))"
proof (intro conjI impI)
  assume h: "servers \<noteq> [] \<and> (1 < length servers \<or> multi)"
  define calls where
    "calls = map (\<lambda>(i, b). ApiCall_init servers (i mod length servers) flds b) (enumerate 0 bl)"
  define out where "out = map (\<lambda>(k, a). check_batch (net k) a) (enumerate 0 calls)"
  define n where "n = length (takeWhile (\<lambda>r. \<not> isl (fst r)) out)"
  have len: "length calls = length bl"
    by (simp add: calls_def)
  have a: "assign_outer servers flds bl [] = Some calls"
    using assign_outer_eq[of servers flds bl "[]"] h by (simp add: calls_def)
  have e: "executor_map net 0 calls =
        (if n < length bl then Inl (projl (fst (out ! n)))
         else Inr (map (\<lambda>r. projr (fst r)) out),
         take (Suc n) (zip calls (map snd out)))"
    unfolding n_def out_def len[symmetric] by (rule executor_map_spec)
  have p: "process_chunk net servers multi bl flds =
        Some \<lparr>returned =
                (if bl = [] then Inl (ValueError ''max_workers must be greater than 0'')
                 else if n < length bl then Inl (projl (fst (out ! n)))
                 else pd_concat (map (\<lambda>r. projr (fst r)) out)),
              units = take (Suc n) (zip calls (map snd out)),
              max_workers = Some (min (int (length bl)) 30)\<rparr>"
  proof (cases "bl = []")
    case True
    then have "calls = []" by (simp add: calls_def)
    then show ?thesis
      using True h a by (simp add: process_chunk_def MAX_THREADS_def)
  next
    case False
    then have "0 < length bl" by simp
    then have w: "\<not> min (int (length bl)) 30 \<le> 0" by (simp add: min_def)
    show ?thesis
      using False h a e w by (simp add: process_chunk_def MAX_THREADS_def Let_def)
  qed
  have t: "list_all2 (\<lambda>(i, b) r.
                 (\<exists>more. snd r = Post (uri_stem (servers ! (i mod length servers))) (fst b) # more)
                 \<and> set (targets (snd r)) = {uri_stem (servers ! (i mod length servers))})
               (enumerate 0 bl) out"
  proof -
    have o: "out = map (\<lambda>(i, b). check_batch (net i) (ApiCall_init servers (i mod length servers) flds b))
                       (enumerate 0 bl)"
    proof -
      have "map (\<lambda>(k, a). check_batch (net k) a)
              (enumerate j (map (\<lambda>(i, b). ApiCall_init servers (i mod length servers) flds b)
                                (enumerate j xs))) =
            map (\<lambda>(i, b). check_batch (net i) (ApiCall_init servers (i mod length servers) flds b))
              (enumerate j xs)" for j and xs :: "batch list"
        by (induction xs arbitrary: j) simp_all
      then show ?thesis by (simp add: out_def calls_def)
    qed
    have "(\<exists>more. snd (check_batch (net i) (ApiCall_init servers (i mod length servers) flds b)) =
              Post (uri_stem (servers ! (i mod length servers))) (fst b) # more)
          \<and> set (targets (snd (check_batch (net i) (ApiCall_init servers (i mod length servers) flds b)))) =
              {uri_stem (servers ! (i mod length servers))}" for i b
      using check_batch_posts_to[OF round_robin_server[of servers i flds b], of "net i"] h
      by auto
    then show ?thesis
      unfolding o by (simp add: list_all2_conv_all_nth split_beta)
  qed
  show "let calls = map (\<lambda>(i, b). ApiCall_init servers (i mod length servers) flds b) (enumerate 0 bl);
           out = map (\<lambda>(k, a). check_batch (net k) a) (enumerate 0 calls);
           n = length (takeWhile (\<lambda>r. \<not> isl (fst r)) out)
       in assign_outer servers flds bl [] = Some calls
          \<and> process_chunk net servers multi bl flds =
              Some \<lparr>returned =
                      (if bl = [] then Inl (ValueError ''max_workers must be greater than 0'')
                       else if n < length bl then Inl (projl (fst (out ! n)))
                       else pd_concat (map (\<lambda>r. projr (fst r)) out)),
                    units = take (Suc n) (zip calls (map snd out)),
                    max_workers = Some (min (int (length bl)) 30)\<rparr>
          \<and> list_all2 (\<lambda>(i, b) r.
                 (\<exists>more. snd r = Post (uri_stem (servers ! (i mod length servers))) (fst b) # more)
                 \<and> set (targets (snd r)) = {uri_stem (servers ! (i mod length servers))})
               (enumerate 0 bl) out"
    unfolding Let_def calls_def[symmetric] out_def[symmetric] n_def[symmetric]
    using a p t by blast
next
  assume h: "length servers = 1 \<and> \<not> multi"
  then have ne: "servers \<noteq> []" by auto
  define calls where "calls = map (ApiCall_init servers 0 flds) bl"
  define out where "out = map (\<lambda>(k, a). check_batch (net k) a) (enumerate 0 calls)"
  define n where "n = length (takeWhile (\<lambda>r. \<not> isl (fst r)) out)"
  have len: "length calls = length bl"
    by (simp add: calls_def)
  have e: "executor_map net 0 calls =
        (if n < length bl then Inl (projl (fst (out ! n)))
         else Inr (map (\<lambda>r. projr (fst r)) out),
         take (Suc n) (zip calls (map snd out)))"
    unfolding n_def out_def len[symmetric] by (rule executor_map_spec)
  have s: "serial_loop net servers flds 0 bl [] [] =
        (if n < length bl then Inl (projl (fst (out ! n)))
         else Inr (map (\<lambda>r. projr (fst r)) out),
         take (Suc n) (zip calls (map snd out)))"
    unfolding serial_loop_executor calls_def[symmetric] e by simp
  have p: "process_chunk net servers multi bl flds =
        Some \<lparr>returned =
                (if n < length bl then Inl (projl (fst (out ! n)))
                 else pd_concat (map (\<lambda>r. projr (fst r)) out)),
              units = take (Suc n) (zip calls (map snd out)),
              max_workers = None\<rparr>"
    using h s by (simp add: process_chunk_def)
  have t: "list_all2 (\<lambda>b r.
                 (\<exists>more. snd r = Post (uri_stem (servers ! 0)) (fst b) # more)
                 \<and> set (targets (snd r)) = {uri_stem (servers ! 0)})
               bl out"
  proof -
    have o: "out = map (\<lambda>(i, b). check_batch (net i) (ApiCall_init servers 0 flds b))
                       (enumerate 0 bl)"
      by (simp add: out_def calls_def enumerate_map_snd split_beta)
    have "(\<exists>more. snd (check_batch (net i) (ApiCall_init servers 0 flds b)) =
              Post (uri_stem (servers ! 0)) (fst b) # more)
          \<and> set (targets (snd (check_batch (net i) (ApiCall_init servers 0 flds b)))) =
              {uri_stem (servers ! 0)}" for i b
      using check_batch_posts_to[OF first_server[OF ne, of flds b], of "net i"]
      by auto
    then show ?thesis
      unfolding o by (simp add: list_all2_conv_all_nth split_beta nth_enumerate_eq)
  qed
  show "let calls = map (ApiCall_init servers 0 flds) bl;
           out = map (\<lambda>(k, a). check_batch (net k) a) (enumerate 0 calls);
           n = length (takeWhile (\<lambda>r. \<not> isl (fst r)) out)
       in process_chunk net servers multi bl flds =
              Some \<lparr>returned =
                      (if n < length bl then Inl (projl (fst (out ! n)))
                       else pd_concat (map (\<lambda>r. projr (fst r)) out)),
                    units = take (Suc n) (zip calls (map snd out)),
                    max_workers = None\<rparr>
          \<and> list_all2 (\<lambda>b r.
                 (\<exists>more. snd r = Post (uri_stem (servers ! 0)) (fst b) # more)
                 \<and> set (targets (snd r)) = {uri_stem (servers ! 0)})
               bl out"
    unfolding Let_def calls_def[symmetric] out_def[symmetric] n_def[symmetric]
    using p t by blast
qed

theorem dispatch_witness:
  "([\<lparr>name = ''A'', root = ''a'', uri_stem = ''a'', multi_thread_mode = True,
        init_result = ''Working'', online = True\<rparr>,
      \<lparr>name = ''B'', root = ''b'', uri_stem = ''b'', multi_thread_mode = True,
        init_result = ''Working'', online = True\<rparr>] \<noteq> []
    \<and> (1 < length [\<lparr>name = ''A'', root = ''a'', uri_stem = ''a'', multi_thread_mode = True,
                      init_result = ''Working'', online = True\<rparr>,
                    \<lparr>name = ''B'', root = ''b'', uri_stem = ''b'', multi_thread_mode = True,
                      init_result = ''Working'', online = True\<rparr>] \<or> False))
   \<and> (\<exists>run. process_chunk (\<lambda>k url body i. Parsed \<lparr>index = [0], columns = []\<rparr>)
              [\<lparr>name = ''A'', root = ''a'', uri_stem = ''a'', multi_thread_mode = True,
                 init_result = ''Working'', online = True\<rparr>,
               \<lparr>name = ''B'', root = ''b'', uri_stem = ''b'', multi_thread_mode = True,
                 init_result = ''Working'', online = True\<rparr>]
              False [(''x'', [0]), (''y'', [1]), (''z'', [2])] [] = Some run
          \<and> max_workers run = Some 3
          \<and> map (\<lambda>u. api_server_id (fst u)) (units run) = [0, 1, 0]
          \<and> map snd (units run) = [[Post ''a'' ''x''], [Post ''b'' ''y''], [Post ''a'' ''z'']])
   \<and> (length [\<lparr>name = ''A'', root = ''a'', uri_stem = ''a'', multi_thread_mode = False,
                  init_result = ''Working'', online = True\<rparr>] = 1 \<and> \<not> False)
   \<and> (\<exists>run. process_chunk (\<lambda>k url body i. Parsed \<lparr>index = [0], columns = []\<rparr>)
              [\<lparr>name = ''A'', root = ''a'', uri_stem = ''a'', multi_thread_mode = False,
                 init_result = ''Working'', online = True\<rparr>]
              False [(''x'', [0]), (''y'', [1])] [] = Some run
          \<and> max_workers run = None
          \<and> map (\<lambda>u. api_server_id (fst u)) (units run) = [0, 0]
          \<and> map snd (units run) = [[Post ''a'' ''x''], [Post ''a'' ''y'']])"
proof -
  let ?A = "\<lparr>name = ''A'', root = ''a'', uri_stem = ''a'', multi_thread_mode = True,
             init_result = ''Working'', online = True\<rparr>"
  let ?B = "\<lparr>name = ''B'', root = ''b'', uri_stem = ''b'', multi_thread_mode = True,
             init_result = ''Working'', online = True\<rparr>"
  let ?S = "\<lparr>name = ''A'', root = ''a'', uri_stem = ''a'', multi_thread_mode = False,
             init_result = ''Working'', online = True\<rparr>"
  let ?net = "\<lambda>(k::nat) (url::string) (body::string) (i::nat).
                Parsed \<lparr>index = [0::nat], columns = []\<rparr>"
  let ?b3 = "[(''x'', [0::nat]), (''y'', [1]), (''z'', [2])]"
  let ?b2 = "[(''x'', [0::nat]), (''y'', [1])]"
  let ?r2 = "the (process_chunk ?net [?A, ?B] False ?b3 [])"
  let ?r1 = "the (process_chunk ?net [?S] False ?b2 [])"
  have two: "[?A, ?B] \<noteq> [] \<and> (1 < length [?A, ?B] \<or> False)"
    by simp
  have one: "length [?S] = 1 \<and> \<not> False"
    by simp
  note T2 = dispatch_round_robin_or_serial[of "[?A, ?B]" False "[]" ?b3 ?net,
      THEN conjunct1, THEN mp, OF two, unfolded Let_def, THEN conjunct2, THEN conjunct1]
  note T1 = dispatch_round_robin_or_serial[of "[?S]" False "[]" ?b2 ?net,
      THEN conjunct2, THEN mp, OF one, unfolded Let_def, THEN conjunct1]
  have r2: "process_chunk ?net [?A, ?B] False ?b3 [] = Some ?r2"
    unfolding T2 by (rule arg_cong[where f=Some]) (rule option.sel[symmetric])
  have m2: "max_workers ?r2 = Some 3"
    unfolding T2 by simp
  have i2: "map (\<lambda>u. api_server_id (fst u)) (units ?r2) = [0, 1, 0]"
    unfolding T2 by code_simp
  have e2: "map snd (units ?r2) = [[Post ''a'' ''x''], [Post ''b'' ''y''], [Post ''a'' ''z'']]"
    unfolding T2 by code_simp
  have r1: "process_chunk ?net [?S] False ?b2 [] = Some ?r1"
    unfolding T1 by (rule arg_cong[where f=Some]) (rule option.sel[symmetric])
  have m1: "max_workers ?r1 = None"
    unfolding T1 by simp
  have i1: "map (\<lambda>u. api_server_id (fst u)) (units ?r1) = [0, 0]"
    unfolding T1 by code_simp
  have e1: "map snd (units ?r1) = [[Post ''a'' ''x''], [Post ''a'' ''y'']]"
    unfolding T1 by code_simp
  have w2: "\<exists>run. process_chunk ?net [?A, ?B] False ?b3 [] = Some run
          \<and> max_workers run = Some 3
          \<and> map (\<lambda>u. api_server_id (fst u)) (units run) = [0, 1, 0]
          \<and> map snd (units run) = [[Post ''a'' ''x''], [Post ''b'' ''y''], [Post ''a'' ''z'']]"
    using r2 m2 i2 e2 by (intro exI[of _ ?r2] conjI)
  have w1: "\<exists>run. process_chunk ?net [?S] False ?b2 [] = Some run
          \<and> max_workers run = None
          \<and> map (\<lambda>u. api_server_id (fst u)) (units run) = [0, 0]
          \<and> map snd (units run) = [[Post ''a'' ''x''], [Post ''a'' ''y'']]"
    using r1 m1 i1 e1 by (intro exI[of _ ?r1] conjI)
  show ?thesis
    by (rule conjI[OF two conjI[OF w2 conjI[OF one w1]]])
qed

lemma plan_positive:
  "\<exists>b bl c. plan (1 + int n) (r # rows) = Some (b # bl, c)"
proof -
  have "plan_loop (int (Suc n)) (r # rows) (int 0) (int (length (r # rows))) [] 0 =
         Some ([] @ map (\<lambda>k. make_batch (take (Suc n) (drop (0 + k * Suc n) (r # rows))))
                         [0..<(length (r # rows) - 0 + Suc n - 1) div Suc n],
               0 + (length (r # rows) - 0 + Suc n - 1) div Suc n)"
    by (rule plan_loop_from) simp
  moreover have "0 < (length (r # rows) - 0 + Suc n - 1) div Suc n"
    by (simp add: div_greater_zero_iff)
  ultimately obtain m where
    "plan_loop (int (Suc n)) (r # rows) (int 0) (int (length (r # rows))) [] 0 =
       Some (map (\<lambda>k. make_batch (take (Suc n) (drop (0 + k * Suc n) (r # rows)))) [0..<Suc m],
             Suc m)"
    by (cases "(length (r # rows) - 0 + Suc n - 1) div Suc n") auto
  then have "plan (1 + int n) (r # rows) =
       Some (map (\<lambda>k. make_batch (take (Suc n) (drop (0 + k * Suc n) (r # rows)))) [0..<Suc m],
             Suc m)"
    by (simp add: plan_def add.commute)
  then show ?thesis
    by (simp add: upt_conv_Cons del: upt_Suc)
qed

subsection \<open>The empty pool\<close>

text \<open>
  C6. A Config object whose server list is empty has an empty pool: \<^verbatim>\<open>get_apis\<close>
  returns it without an error. With that pool and the multi-thread flag set,
  \<^verbatim>\<open>process_chunk\<close> does not return on a batch list that is not empty: the inner
  assigning loop takes no batch, so the outer loop never ends; no batch is assigned and
  none is executed. So \<^verbatim>\<open>check_chunk\<close> and \<^verbatim>\<open>check_df\<close> do not return for any
  dataset with a row and any positive batch size.
\<close>

theorem empty_pool_dispatch_diverges:
  "process_chunk net [] True (b # bl) flds = None
   \<and> fst (get_apis web [] rf) = Inr []
   \<and> check_chunk net \<lparr>ini_api_servers = [], api_batch_size = 1 + int n,
                        multi_threaded_mode = True, refiner_output_fields = flds\<rparr> (r # rows) = None
   \<and> check_df net \<lparr>ini_api_servers = [], api_batch_size = 1 + int n,
                     multi_threaded_mode = True, refiner_output_fields = flds\<rparr> (r # rows) = None"
proof -
  have hang: "process_chunk net [] True (b # bl) flds = None" for b bl
  proof (cases "assign_outer [] flds (b # bl) []")
    case None
    then show ?thesis by (simp add: process_chunk_def)
  next
    case (Some pl)
    from assign_outer_returns[OF this] show ?thesis by simp
  qed
  have pool: "fst (get_apis web [] rf) = Inr []"
    by (simp add: get_apis_def)
  obtain b' bl' c where p: "plan (1 + int n) (r # rows) = Some (b' # bl', c)"
    using plan_positive by blast
  have chunk: "check_chunk net \<lparr>ini_api_servers = [], api_batch_size = 1 + int n,
                        multi_threaded_mode = True, refiner_output_fields = flds\<rparr> (r # rows) = None"
    by (simp add: check_chunk_def p hang)
  show ?thesis
    using hang[of b bl] pool chunk by (simp add: check_df_def)
qed

end
